theory Spec2Isabelle
  imports Main
begin

section \<open>JavaScript values, objects and the runtime operations the bus relies on\<close>

text \<open>
  The event bus is TypeScript; at run time it sees arbitrary JavaScript values. Objects
  (functions included) live in a heap and are named by references; an object has a
  prototype link, own data properties and a flag telling whether it is callable.
  Accessor properties, proxies and \<open>Symbol.hasInstance\<close> overrides are not modelled.
  A number is an integer here: the code looks at a posted value only through \<open>typeof\<close>,
  truthiness, identity and its \<open>constructor\<close> property.
\<close>

type_synonym ref = nat

datatype val = Undefined | Null | Bool bool | Num int | Str string | Sym nat | Ref ref

datatype exn = TypeError | Thrown val

record jsobj =
  proto :: "ref option"
  props :: "string \<Rightarrow> val option"
  callable :: bool

text \<open>
  \<open>fresh\<close> is the number of objects allocated so far: the next \<open>new\<close> takes the
  reference \<open>fresh\<close>. A prototype chain is acyclic in JavaScript, hence never longer than
  \<open>fresh\<close>, which bounds the two walks along prototype links below.
\<close>

record heap =
  objs :: "ref \<Rightarrow> jsobj"
  fresh :: nat

text \<open>The objects of the realm that the code names: the global \<open>Object\<close>, the
  (non-writable) \<open>DeadEvent.prototype\<close>, and the prototypes that property access on a
  primitive goes through.\<close>

record realm =
  objectCtor :: ref
  deadEventProto :: ref
  booleanProto :: ref
  numberProto :: ref
  stringProto :: ref
  symbolProto :: ref

datatype typeTag = TUndefined | TObject | TBoolean | TNumber | TString | TSymbol | TFunction

fun typeof :: "heap \<Rightarrow> val \<Rightarrow> typeTag" where
  "typeof h Undefined = TUndefined"
| "typeof h Null = TObject"
| "typeof h (Bool b) = TBoolean"
| "typeof h (Num n) = TNumber"
| "typeof h (Str s) = TString"
| "typeof h (Sym n) = TSymbol"
| "typeof h (Ref r) = (if callable (objs h r) then TFunction else TObject)"

fun truthy :: "val \<Rightarrow> bool" where
  "truthy Undefined = False"
| "truthy Null = False"
| "truthy (Bool b) = b"
| "truthy (Num n) = (n \<noteq> 0)"
| "truthy (Str s) = (s \<noteq> [])"
| "truthy (Sym n) = True"
| "truthy (Ref r) = True"

text \<open>\<open>v == null\<close> and \<open>v ?? null\<close>.\<close>

fun nullish :: "val \<Rightarrow> bool" where
  "nullish Undefined = True"
| "nullish Null = True"
| "nullish v = False"

definition orNull :: "val \<Rightarrow> val" where
  "orNull v = (if nullish v then Null else v)"

text \<open>Property lookup along the prototype chain, starting at object \<open>r\<close>.\<close>

fun lookupProp :: "nat \<Rightarrow> (ref \<Rightarrow> jsobj) \<Rightarrow> ref \<Rightarrow> string \<Rightarrow> val" where
  "lookupProp 0 os r k = Undefined"
| "lookupProp (Suc n) os r k =
     (case props (os r) k of
        Some v \<Rightarrow> v
      | None \<Rightarrow> (case proto (os r) of None \<Rightarrow> Undefined | Some p \<Rightarrow> lookupProp n os p k))"

text \<open>\<open>v.k\<close>: a \<open>TypeError\<close> on \<open>undefined\<close> and \<open>null\<close>; a primitive is looked up in
  the prototype of its wrapper.\<close>

fun getProp :: "realm \<Rightarrow> heap \<Rightarrow> val \<Rightarrow> string \<Rightarrow> exn + val" where
  "getProp R h Undefined k = Inl TypeError"
| "getProp R h Null k = Inl TypeError"
| "getProp R h (Bool b) k = Inr (lookupProp (fresh h) (objs h) (booleanProto R) k)"
| "getProp R h (Num n) k = Inr (lookupProp (fresh h) (objs h) (numberProto R) k)"
| "getProp R h (Str s) k = Inr (lookupProp (fresh h) (objs h) (stringProto R) k)"
| "getProp R h (Sym n) k = Inr (lookupProp (fresh h) (objs h) (symbolProto R) k)"
| "getProp R h (Ref r) k = Inr (lookupProp (fresh h) (objs h) r k)"

text \<open>\<open>v?.k\<close>.\<close>

definition optProp :: "realm \<Rightarrow> heap \<Rightarrow> val \<Rightarrow> string \<Rightarrow> exn + val" where
  "optProp R h v k = (if nullish v then Inr Undefined else getProp R h v k)"

text \<open>\<open>Object.getPrototypeOf(v)\<close>.\<close>

fun getPrototypeOf :: "realm \<Rightarrow> heap \<Rightarrow> val \<Rightarrow> exn + val" where
  "getPrototypeOf R h Undefined = Inl TypeError"
| "getPrototypeOf R h Null = Inl TypeError"
| "getPrototypeOf R h (Bool b) = Inr (Ref (booleanProto R))"
| "getPrototypeOf R h (Num n) = Inr (Ref (numberProto R))"
| "getPrototypeOf R h (Str s) = Inr (Ref (stringProto R))"
| "getPrototypeOf R h (Sym n) = Inr (Ref (symbolProto R))"
| "getPrototypeOf R h (Ref r) = Inr (case proto (objs h r) of None \<Rightarrow> Null | Some p \<Rightarrow> Ref p)"

text \<open>\<open>v instanceof DeadEvent\<close>: is \<open>DeadEvent.prototype\<close> on the prototype chain of
  \<open>v\<close> (the chain starts at the prototype of \<open>v\<close>, not at \<open>v\<close>)? Never for a primitive.\<close>

fun protoReaches :: "nat \<Rightarrow> (ref \<Rightarrow> jsobj) \<Rightarrow> ref \<Rightarrow> ref \<Rightarrow> bool" where
  "protoReaches 0 os r p = False"
| "protoReaches (Suc n) os r p =
     (case proto (os r) of None \<Rightarrow> False | Some q \<Rightarrow> q = p \<or> protoReaches n os q p)"

fun instanceofDeadEvent :: "realm \<Rightarrow> heap \<Rightarrow> val \<Rightarrow> bool" where
  "instanceofDeadEvent R h (Ref r) = protoReaches (fresh h) (objs h) r (deadEventProto R)"
| "instanceofDeadEvent R h v = False"

text \<open>\<open>new DeadEvent(source, event)\<close> (dead-event.ts): a fresh object whose prototype is
  \<open>DeadEvent.prototype\<close>, with the two own properties the constructor assigns.\<close>

definition newDeadEvent :: "realm \<Rightarrow> val \<Rightarrow> val \<Rightarrow> heap \<Rightarrow> ref \<times> heap" where
  "newDeadEvent R source ev h =
     (fresh h,
      h\<lparr>objs := (objs h)(fresh h :=
           \<lparr>proto = Some (deadEventProto R),
            props = [''source'' \<mapsto> source, ''event'' \<mapsto> ev],
            callable = False\<rparr>),
        fresh := Suc (fresh h)\<rparr>)"

section \<open>TypeResolver (utils/type-resolver.ts)\<close>

text \<open>
  The loop of \<open>getTypesFor\<close>:
  \<^verbatim>\<open>while (ctor && ctor !== Object) { out.push(ctor);
      const proto = Object.getPrototypeOf(ctor.prototype);
      ctor = proto?.constructor ?? null; }\<close>
  It returns the constructors pushed from \<open>ctor\<close> on, or the error thrown on the way; it
  need not terminate (a constructor chain may be cyclic), so not returning is \<open>None\<close>.
\<close>

definition nextCtor :: "realm \<Rightarrow> heap \<Rightarrow> val \<Rightarrow> exn + val" where
  "nextCtor R h ctor =
     (case getProp R h ctor ''prototype'' of
        Inl e \<Rightarrow> Inl e
      | Inr p \<Rightarrow>
          (case getPrototypeOf R h p of
             Inl e \<Rightarrow> Inl e
           | Inr pr \<Rightarrow>
               (case optProp R h pr ''constructor'' of
                  Inl e \<Rightarrow> Inl e
                | Inr c \<Rightarrow> Inr (orNull c))))"

partial_function (option) ctorChain :: "realm \<Rightarrow> heap \<Rightarrow> val \<Rightarrow> (exn + val list) option" where
  "ctorChain R h ctor =
     (if truthy ctor \<and> ctor \<noteq> Ref (objectCtor R) then
        (case nextCtor R h ctor of
           Inl e \<Rightarrow> Some (Inl e)
         | Inr c \<Rightarrow>
             Option.bind (ctorChain R h c)
               (\<lambda>r. case r of Inl e \<Rightarrow> Some (Inl e) | Inr out \<Rightarrow> Some (Inr (ctor # out))))
      else Some (Inr []))"

text \<open>The resolver's state is its \<open>typeCache\<close>, a WeakMap from event objects to lists of
  constructors.\<close>

type_synonym typeCache = "val \<Rightarrow> val list option"

definition getTypesFor ::
  "realm \<Rightarrow> heap \<Rightarrow> val \<Rightarrow> bool \<Rightarrow> typeCache \<Rightarrow> ((exn + val list) \<times> typeCache) option" where
  "getTypesFor R h ev hasObjectHandler cache =
     (if \<not> truthy ev \<or> typeof h ev \<noteq> TObject then Some (Inr [], cache)
      else
        (case cache ev of
           Some cached \<Rightarrow>
             Some (Inr (if hasObjectHandler \<and> Ref (objectCtor R) \<notin> set cached
                        then cached @ [Ref (objectCtor R)] else cached), cache)
         | None \<Rightarrow>
             (case getProp R h ev ''constructor'' of
                Inl e \<Rightarrow> Some (Inl e, cache)
              | Inr c \<Rightarrow>
                  Option.bind (ctorChain R h (orNull c))
                    (\<lambda>r. case r of
                       Inl e \<Rightarrow> Some (Inl e, cache)
                     | Inr out \<Rightarrow>
                         (let out' = (if hasObjectHandler
                                      then out @ [Ref (objectCtor R)] else out)
                          in Some (Inr out', cache(ev \<mapsto> out')))))))"

text \<open>\<open>clearCache\<close>: \<open>this.typeCache = new WeakMap()\<close>.\<close>

definition clearCache :: "typeCache \<Rightarrow> typeCache" where
  "clearCache cache = Map.empty"

section \<open>EventBus (event-bus.ts) and AsyncEventBus (async-event-bus.ts)\<close>

text \<open>
  A \<open>HandlerRec\<close> is an object \<open>{ fn }\<close>; \<open>rid\<close> is its identity. The registry maps a
  type to its set of records, in insertion order. The bus state, the heap and whatever
  state the surrounding program owns (\<open>user\<close>) make up the world that running code may
  change.
\<close>

record handlerRec =
  rid :: nat
  fn :: val

record 'u world =
  hp :: heap
  registry :: "val \<Rightarrow> handlerRec list option"
  typeCache :: typeCache
  nextRec :: nat
  user :: 'u

record ctx =
  event :: val
  eventType :: val
  handler :: val
  eventBus :: val

text \<open>The task that \<open>AsyncEventBus.deliver\<close> hands to its executor is the closure
  \<open>() => super.deliver(fn, type, event)\<close>.\<close>

datatype task = Task val val val

text \<open>
  What the code of the bus does not fix is a parameter: the realm, the bus object
  \<open>this\<close>, what calling a value on an argument does (\<open>call\<close>: it may change the world
  in any way and may throw), the exception handler and the executor given to the
  constructors. Each of the three is a function of the world: a call ends, by returning
  (\<open>None\<close>) or by throwing (\<open>Some\<close> of what is thrown).
\<close>

record 'u env =
  rt :: realm
  self :: val
  call :: "val \<Rightarrow> val \<Rightarrow> 'u world \<Rightarrow> exn option \<times> 'u world"
  exceptionHandler :: "exn \<Rightarrow> ctx \<Rightarrow> 'u world \<Rightarrow> exn option \<times> 'u world"
  executor :: "task \<Rightarrow> 'u world \<Rightarrow> exn option \<times> 'u world"

text \<open>What a run did, in order: handler calls and how they completed, calls of the
  exception handler and how they completed, tasks given to the executor, and the
  dead events posted (the reference and the object as constructed).\<close>

datatype action =
    Invoke val val val "exn option"
  | Report exn ctx "exn option"
  | Submit task
  | PostDead val jsobj

text \<open>\<open>set.add(rec)\<close> and \<open>current.delete(rec)\<close> on an insertion-ordered set.\<close>

definition setAdd :: "'a \<Rightarrow> 'a list \<Rightarrow> 'a list" where
  "setAdd x xs = (if x \<in> set xs then xs else xs @ [x])"

definition setDelete :: "'a \<Rightarrow> 'a list \<Rightarrow> 'a list" where
  "setDelete x xs = filter (\<lambda>y. y \<noteq> x) xs"

text \<open>\<open>subscribe\<close> returns the subscription, whose closure holds the type and the new
  record; \<open>unsubscribe\<close> is the method of that subscription. Then \<open>unsubscribeAll\<close> and
  \<open>getSubscriptionCount\<close>.\<close>

definition subscribe :: "val \<Rightarrow> val \<Rightarrow> 'u world \<Rightarrow> (val \<times> handlerRec) \<times> 'u world" where
  "subscribe type h w =
     (let s = (case registry w type of Some s \<Rightarrow> s | None \<Rightarrow> []);
          rec = \<lparr>rid = nextRec w, fn = h\<rparr>
      in ((type, rec),
          w\<lparr>registry := (registry w)(type \<mapsto> setAdd rec s), nextRec := Suc (nextRec w)\<rparr>))"

definition unsubscribe :: "val \<times> handlerRec \<Rightarrow> 'u world \<Rightarrow> 'u world" where
  "unsubscribe sub w =
     (case registry w (fst sub) of
        None \<Rightarrow> w
      | Some current \<Rightarrow>
          (let current' = setDelete (snd sub) current
           in if length current' = 0 then w\<lparr>registry := (registry w)(fst sub := None)\<rparr>
              else w\<lparr>registry := (registry w)(fst sub \<mapsto> current')\<rparr>))"

definition unsubscribeAll :: "val \<Rightarrow> 'u world \<Rightarrow> nat \<times> 'u world" where
  "unsubscribeAll type w =
     ((case registry w type of Some s \<Rightarrow> length s | None \<Rightarrow> 0),
      w\<lparr>registry := (registry w)(type := None)\<rparr>)"

definition getSubscriptionCount :: "val \<Rightarrow> 'u world \<Rightarrow> nat" where
  "getSubscriptionCount type w = (case registry w type of Some s \<Rightarrow> length s | None \<Rightarrow> 0)"

text \<open>\<open>EventBus.deliver\<close>: the call in a \<open>try\<close>, the exception handler in the \<open>catch\<close>.
  What the exception handler throws is not caught.\<close>

definition deliver ::
  "'u env \<Rightarrow> val \<Rightarrow> val \<Rightarrow> val \<Rightarrow> 'u world \<Rightarrow> exn option \<times> 'u world \<times> action list" where
  "deliver env f type ev w =
     (case call env f ev w of
        (None, w1) \<Rightarrow> (None, w1, [Invoke f type ev None])
      | (Some err, w1) \<Rightarrow>
          (let c = \<lparr>event = ev, eventType = type, handler = f, eventBus = self env\<rparr>
           in case exceptionHandler env err c w1 of
                (r, w2) \<Rightarrow> (r, w2, [Invoke f type ev (Some err), Report err c r])))"


text \<open>\<open>AsyncEventBus.deliver\<close>: \<open>this.executor(() => super.deliver(fn, type, event))\<close>.\<close>

definition asyncDeliver ::
  "'u env \<Rightarrow> val \<Rightarrow> val \<Rightarrow> val \<Rightarrow> 'u world \<Rightarrow> exn option \<times> 'u world \<times> action list" where
  "asyncDeliver env f type ev w =
     (case executor env (Task f type ev) w of
        (r, w1) \<Rightarrow> (r, w1, [Submit (Task f type ev)]))"

text \<open>The two loops of \<open>post\<close> that fill \<open>handlersToCall\<close> and count \<open>delivered\<close>:
  the inner one over the records of a set, the outer one over the resolved types.\<close>

fun pushRecs ::
  "val \<Rightarrow> handlerRec list \<Rightarrow> (val \<times> val) list \<times> nat \<Rightarrow> (val \<times> val) list \<times> nat" where
  "pushRecs type [] (handlersToCall, delivered) = (handlersToCall, delivered)"
| "pushRecs type (rec # recs) (handlersToCall, delivered) =
     pushRecs type recs (handlersToCall @ [(fn rec, type)], delivered + 1)"

fun collectHandlers ::
  "(val \<Rightarrow> handlerRec list option) \<Rightarrow> val list \<Rightarrow> (val \<times> val) list \<times> nat
     \<Rightarrow> (val \<times> val) list \<times> nat" where
  "collectHandlers reg [] acc = acc"
| "collectHandlers reg (type # types) acc =
     (case reg type of
        None \<Rightarrow> collectHandlers reg types acc
      | Some s \<Rightarrow>
          if length s = 0 then collectHandlers reg types acc
          else collectHandlers reg types (pushRecs type s acc))"

text \<open>The delivery loop: \<open>for (const handler of handlersToCall) this.deliver(...)\<close>, with
  \<open>this.deliver\<close> the method of the class of the bus. An exception leaves the loop.\<close>

type_synonym 'u deliverFn =
  "val \<Rightarrow> val \<Rightarrow> val \<Rightarrow> 'u world \<Rightarrow> exn option \<times> 'u world \<times> action list"

fun deliverAll ::
  "'u deliverFn \<Rightarrow> (val \<times> val) list \<Rightarrow> val \<Rightarrow> 'u world
     \<Rightarrow> exn option \<times> 'u world \<times> action list" where
  "deliverAll dl [] ev w = (None, w, [])"
| "deliverAll dl ((f, type) # hs) ev w =
     (case dl f type ev w of
        (Some e, w1, tr) \<Rightarrow> (Some e, w1, tr)
      | (None, w1, tr) \<Rightarrow>
          (case deliverAll dl hs ev w1 of (r, w2, tr') \<Rightarrow> (r, w2, tr @ tr')))"

text \<open>The snapshot in closed form: for each resolved type in order, the records of its
  set in insertion order.\<close>

definition snapshot :: "(val \<Rightarrow> handlerRec list option) \<Rightarrow> val list \<Rightarrow> (val \<times> val) list" where
  "snapshot reg types =
     concat (map (\<lambda>type. case reg type of None \<Rightarrow> []
                          | Some s \<Rightarrow> map (\<lambda>rec. (fn rec, type)) s) types)"

text \<open>
  \<open>post\<close>. The result is \<open>None\<close> when the run does not end (the loop of the resolver),
  otherwise what \<open>post\<close> returned (\<open>Inr\<close>) or the error that left it (\<open>Inl\<close>), the world
  it left and what it did. \<open>dl\<close> is the \<open>deliver\<close> method of the class of the bus:
  \<open>deliver env\<close> for \<open>EventBus\<close>, \<open>asyncDeliver env\<close> for \<open>AsyncEventBus\<close>.
\<close>

function post ::
  "'u env \<Rightarrow> 'u deliverFn \<Rightarrow> val \<Rightarrow> 'u world \<Rightarrow> ((exn + nat) \<times> 'u world \<times> action list) option" where
  "post env dl ev w =
     (if nullish ev then Some (Inr 0, w, [])
      else
        (case getTypesFor (rt env) (hp w) ev
                (registry w (Ref (objectCtor (rt env))) \<noteq> None) (typeCache w) of
           None \<Rightarrow> None
         | Some (Inl e, cache) \<Rightarrow> Some (Inl e, w\<lparr>typeCache := cache\<rparr>, [])
         | Some (Inr types, cache) \<Rightarrow>
             (case collectHandlers (registry w) types ([], 0) of
                (handlersToCall, delivered) \<Rightarrow>
                  (case deliverAll dl handlersToCall ev (w\<lparr>typeCache := cache\<rparr>) of
                     (Some e, w2, tr) \<Rightarrow> Some (Inl e, w2, tr)
                   | (None, w2, tr) \<Rightarrow>
                       if delivered = 0 \<and> \<not> instanceofDeadEvent (rt env) (hp w2) ev then
                         (case newDeadEvent (rt env) (self env) ev (hp w2) of
                            (d, h3) \<Rightarrow>
                              (case post env dl (Ref d) (w2\<lparr>hp := h3\<rparr>) of
                                 None \<Rightarrow> None
                               | Some (Inl e, w4, tr') \<Rightarrow>
                                   Some (Inl e, w4, tr @ PostDead (Ref d) (objs h3 d) # tr')
                               | Some (Inr n, w4, tr') \<Rightarrow>
                                   Some (Inr delivered, w4, tr @ PostDead (Ref d) (objs h3 d) # tr')))
                       else Some (Inr delivered, w2, tr)))))"
  by pat_completeness auto

section \<open>Reading a run\<close>

text \<open>The handler calls (function, type, event), the tasks submitted and the dead events
  posted in a run, in order.\<close>

fun invocations :: "action list \<Rightarrow> (val \<times> val \<times> val) list" where
  "invocations [] = []"
| "invocations (Invoke f t e r # tr) = (f, t, e) # invocations tr"
| "invocations (a # tr) = invocations tr"

fun submissions :: "action list \<Rightarrow> task list" where
  "submissions [] = []"
| "submissions (Submit t # tr) = t # submissions tr"
| "submissions (a # tr) = submissions tr"

fun deadPosts :: "action list \<Rightarrow> (val \<times> jsobj) list" where
  "deadPosts [] = []"
| "deadPosts (PostDead d ob # tr) = (d, ob) # deadPosts tr"
| "deadPosts (a # tr) = deadPosts tr"

text \<open>The handler calls and the submissions of a post itself: those before it posts a
  dead event.\<close>

fun ownCalls :: "action list \<Rightarrow> (val \<times> val \<times> val) list" where
  "ownCalls [] = []"
| "ownCalls (Invoke f t e r # tr) = (f, t, e) # ownCalls tr"
| "ownCalls (PostDead d ob # tr) = []"
| "ownCalls (a # tr) = ownCalls tr"

fun ownSubmissions :: "action list \<Rightarrow> task list" where
  "ownSubmissions [] = []"
| "ownSubmissions (Submit t # tr) = t # ownSubmissions tr"
| "ownSubmissions (PostDead d ob # tr) = []"
| "ownSubmissions (a # tr) = ownSubmissions tr"

text \<open>Every handler call that threw is followed at once by one call of the exception
  handler, with the error thrown and the context of that call, and the exception handler
  is called nowhere else (nor is anything submitted to an executor).\<close>

fun reportedEach :: "val \<Rightarrow> action list \<Rightarrow> bool" where
  "reportedEach bus [] = True"
| "reportedEach bus (Invoke f t e None # tr) = reportedEach bus tr"
| "reportedEach bus (Invoke f t e (Some err) # Report err' c r # tr) =
     (err' = err \<and> c = \<lparr>event = e, eventType = t, handler = f, eventBus = bus\<rparr>
      \<and> reportedEach bus tr)"
| "reportedEach bus (PostDead d ob # tr) = reportedEach bus tr"
| "reportedEach bus tr = False"

section \<open>Conditions on the surroundings\<close>

text \<open>An exception handler that never throws, as the default one, and an executor that
  never throws.\<close>

definition reporterReturns :: "'u env \<Rightarrow> bool" where
  "reporterReturns env = (\<forall>err c w. fst (exceptionHandler env err c w) = None)"

definition executorReturns :: "'u env \<Rightarrow> bool" where
  "executorReturns env = (\<forall>t w. fst (executor env t w) = None)"

text \<open>A value of the heap: a reference among those allocated.\<close>

fun allocated :: "heap \<Rightarrow> val \<Rightarrow> bool" where
  "allocated h (Ref r) = (r < fresh h)"
| "allocated h v = True"

text \<open>
  The class \<open>DeadEvent\<close> as its declaration leaves it: \<open>DeadEvent.prototype.constructor\<close>
  is the class, a function other than \<open>Object\<close> whose \<open>prototype\<close> property is
  \<open>DeadEvent.prototype\<close>, and \<open>DeadEvent.prototype\<close> inherits from \<open>Object.prototype\<close>,
  whose \<open>constructor\<close> is \<open>Object\<close>.
\<close>

definition deadEventCtor :: "realm \<Rightarrow> heap \<Rightarrow> val" where
  "deadEventCtor R h =
     (case props (objs h (deadEventProto R)) ''constructor'' of Some v \<Rightarrow> v | None \<Rightarrow> Undefined)"

definition deadEventIntact :: "realm \<Rightarrow> heap \<Rightarrow> bool" where
  "deadEventIntact R h =
     (deadEventProto R < fresh h \<and>
      (case deadEventCtor R h of
         Ref dr \<Rightarrow>
           dr \<noteq> objectCtor R \<and> dr < fresh h \<and>
           props (objs h dr) ''prototype'' = Some (Ref (deadEventProto R)) \<and>
           (case proto (objs h (deadEventProto R)) of
              Some op \<Rightarrow>
                op < fresh h \<and> props (objs h op) ''constructor'' = Some (Ref (objectCtor R))
            | None \<Rightarrow> False)
       | _ \<Rightarrow> False))"

text \<open>The loop of \<open>getTypesFor\<close> started at \<open>c\<close> leaves within \<open>n\<close> rounds, and every
  constructor it visits has a \<open>prototype\<close> property that is neither \<open>undefined\<close> nor
  \<open>null\<close>.\<close>

fun chainWithin :: "nat \<Rightarrow> realm \<Rightarrow> heap \<Rightarrow> val \<Rightarrow> bool" where
  "chainWithin 0 R h c = (\<not> truthy c \<or> c = Ref (objectCtor R))"
| "chainWithin (Suc n) R h c =
     (\<not> truthy c \<or> c = Ref (objectCtor R) \<or>
      (case getProp R h c ''prototype'' of
         Inl e \<Rightarrow> False
       | Inr p \<Rightarrow>
           \<not> nullish p \<and>
           (case nextCtor R h c of Inl e \<Rightarrow> False | Inr c' \<Rightarrow> chainWithin n R h c')))"

text \<open>The types a fresh \<open>DeadEvent\<close> resolves to, and the object that
  \<open>new DeadEvent(this, event)\<close> builds.\<close>

definition wrapperTypes :: "'u env \<Rightarrow> 'u world \<Rightarrow> val list" where
  "wrapperTypes env w =
     deadEventCtor (rt env) (hp w) #
       (if registry w (Ref (objectCtor (rt env))) \<noteq> None then [Ref (objectCtor (rt env))] else [])"

definition wrapperObj :: "'u env \<Rightarrow> val \<Rightarrow> jsobj" where
  "wrapperObj env ev =
     \<lparr>proto = Some (deadEventProto (rt env)),
      props = [''source'' \<mapsto> self env, ''event'' \<mapsto> ev], callable = False\<rparr>"

text \<open>Parts of a result: of \<open>post\<close>, what it returned or threw, the world it left and what
  the run did; of \<open>getTypesFor\<close>, the list and the cache entry it left for an event.\<close>

definition outcome :: "('a \<times> 'b \<times> 'c) option \<Rightarrow> 'a option" where
  "outcome r = map_option fst r"

definition finalWorld :: "('a \<times> 'b \<times> 'c) option \<Rightarrow> 'b option" where
  "finalWorld r = map_option (fst \<circ> snd) r"

definition actions :: "('a \<times> 'b \<times> 'c) option \<Rightarrow> 'c option" where
  "actions r = map_option (snd \<circ> snd) r"

definition resolved :: "((exn + val list) \<times> typeCache) option \<Rightarrow> (exn + val list) option" where
  "resolved r = map_option fst r"

definition cachedAfter :: "val \<Rightarrow> ((exn + val list) \<times> typeCache) option \<Rightarrow> val list option" where
  "cachedAfter ev r = (case r of None \<Rightarrow> None | Some (res, c) \<Rightarrow> c ev)"

definition emptyCache :: typeCache where
  "emptyCache = Map.empty"

section \<open>Classes and their instances\<close>





section \<open>The delivery the spec describes\<close>

text \<open>
  Written from the words of the spec (4.3, steps 5 and 6), to be compared with the loop of
  \<open>post\<close> over \<open>EventBus.deliver\<close>: every handler of the snapshot is called in order with
  the event, on the world the one before it left; when a call throws, the exception
  handler is called with the error and the context of that call, on the world the
  handler left, and delivery goes on with the next handler. The result is the world
  left at the end and what was done.
\<close>

fun isolatedRun :: "'u env \<Rightarrow> (val \<times> val) list \<Rightarrow> val \<Rightarrow> 'u world \<Rightarrow> 'u world \<times> action list" where
  "isolatedRun env [] ev w = (w, [])"
| "isolatedRun env ((f, t) # hs) ev w =
     (case call env f ev w of
        (None, w1) \<Rightarrow>
          (case isolatedRun env hs ev w1 of (w', tr) \<Rightarrow> (w', Invoke f t ev None # tr))
      | (Some err, w1) \<Rightarrow>
          (case exceptionHandler env err
                  \<lparr>event = ev, eventType = t, handler = f, eventBus = self env\<rparr> w1 of
             (r, w2) \<Rightarrow>
               (case isolatedRun env hs ev w2 of
                  (w', tr) \<Rightarrow>
                    (w', Invoke f t ev (Some err)
                         # Report err \<lparr>event = ev, eventType = t, handler = f,
                                       eventBus = self env\<rparr> r # tr))))"

text \<open>
  Written from the words of the spec (4.4), to be compared with the loop of \<open>post\<close> over
  \<open>AsyncEventBus.deliver\<close>: for every handler of the snapshot in order, the executor is
  given the task of that handler, on the world the submission before it left.
\<close>

fun submittedRun :: "'u env \<Rightarrow> (val \<times> val) list \<Rightarrow> val \<Rightarrow> 'u world \<Rightarrow> 'u world \<times> action list" where
  "submittedRun env [] ev w = (w, [])"
| "submittedRun env ((f, t) # hs) ev w =
     (case submittedRun env hs ev (snd (executor env (Task f t ev) w)) of
        (w', tr) \<Rightarrow> (w', Submit (Task f t ev) # tr))"

text \<open>The world in which a dead event is delivered: the types of the event posted are
  cached, the dead event is allocated and its own types are cached.\<close>

definition deadEventWorld :: "'u env \<Rightarrow> val \<Rightarrow> typeCache \<Rightarrow> 'u world \<Rightarrow> 'u world" where
  "deadEventWorld env ev c w =
     w\<lparr>typeCache := c(Ref (fresh (hp w)) \<mapsto> wrapperTypes env w),
       hp := snd (newDeadEvent (rt env) (self env) ev (hp w))\<rparr>"

section \<open>A concrete realm and heap\<close>

text \<open>
  The objects of a small program, used to run the model:
  \<^verbatim>\<open>class Base {}  class Derived extends Base {}  const e = new Derived();\<close>
  with two handler functions, the bus, an object whose \<open>constructor\<close> property is a
  plain object, and a function whose prototype was set to \<open>DeadEvent.prototype\<close>.
\<close>

definition mkObj :: "ref option \<Rightarrow> (string \<times> val) list \<Rightarrow> bool \<Rightarrow> jsobj" where
  "mkObj p ps c = \<lparr>proto = p, props = map_of ps, callable = c\<rparr>"

definition realm0 :: realm where
  "realm0 = \<lparr>objectCtor = 1, deadEventProto = 3, booleanProto = 10, numberProto = 11,
             stringProto = 12, symbolProto = 13\<rparr>"

definition objs0 :: "ref \<Rightarrow> jsobj" where
  "objs0 = (\<lambda>r. mkObj None [] False)
     (0 := mkObj None [(''constructor'', Ref 1)] False,
      1 := mkObj (Some 2) [(''prototype'', Ref 0)] True,
      2 := mkObj (Some 0) [] True,
      3 := mkObj (Some 0) [(''constructor'', Ref 4)] False,
      4 := mkObj (Some 2) [(''prototype'', Ref 3)] True,
      5 := mkObj (Some 0) [(''constructor'', Ref 6)] False,
      6 := mkObj (Some 2) [(''prototype'', Ref 5)] True,
      7 := mkObj (Some 5) [(''constructor'', Ref 8)] False,
      8 := mkObj (Some 6) [(''prototype'', Ref 7)] True,
      9 := mkObj (Some 7) [] False,
      10 := mkObj (Some 0) [] False,
      11 := mkObj (Some 0) [] False,
      12 := mkObj (Some 0) [] False,
      13 := mkObj (Some 0) [] False,
      14 := mkObj (Some 2) [] True,
      15 := mkObj (Some 2) [] True,
      16 := mkObj (Some 0) [] False,
      17 := mkObj (Some 0) [(''constructor'', Ref 18)] False,
      18 := mkObj (Some 0) [] False,
      19 := mkObj (Some 3) [] True)"

definition heap0 :: heap where
  "heap0 = \<lparr>objs = objs0, fresh = 20\<rparr>"

text \<open>Object 0 is \<open>Object.prototype\<close>, 1 \<open>Object\<close>, 2 \<open>Function.prototype\<close>,
  3 \<open>DeadEvent.prototype\<close>, 4 \<open>DeadEvent\<close>, 5 and 6 \<open>Base.prototype\<close> and \<open>Base\<close>,
  7 and 8 \<open>Derived.prototype\<close> and \<open>Derived\<close>, 9 the event \<open>e\<close>, 10 to 13 the
  prototypes of the primitive wrappers, 14 a handler that returns, 15 a handler that
  throws, 16 the bus, 17 the object \<open>{ constructor: {} }\<close>, 18 that \<open>{}\<close>, 19 the
  function made an instance of \<open>DeadEvent\<close>.\<close>

definition world0 :: "task list world" where
  "world0 = \<lparr>hp = heap0, registry = Map.empty, typeCache = Map.empty, nextRec = 0,
             user = []\<rparr>"

text \<open>Calling handler 15 throws the string \<open>fail\<close>; calling handler 14 subscribes it
  once more to \<open>Base\<close> and removes every handler of \<open>Derived\<close>; the exception handler
  returns (as the default one does); the executor queues the task.\<close>

definition call0 :: "val \<Rightarrow> val \<Rightarrow> task list world \<Rightarrow> exn option \<times> task list world" where
  "call0 f e w =
     (if f = Ref 15 then (Some (Thrown (Str ''fail'')), w)
      else if f = Ref 14
        then (None, snd (unsubscribeAll (Ref 8) (snd (subscribe (Ref 6) (Ref 14) w))))
      else (None, w))"

definition env0 :: "task list env" where
  "env0 = \<lparr>rt = realm0, self = Ref 16, call = call0,
           exceptionHandler = (\<lambda>err c w. (None, w)),
           executor = (\<lambda>t w. (None, w\<lparr>user := user w @ [t]\<rparr>))\<rparr>"

text \<open>The same bus with an exception handler that throws.\<close>

definition env1 :: "task list env" where
  "env1 = env0\<lparr>exceptionHandler := (\<lambda>err c w. (Some (Thrown (Str ''reporter'')), w))\<rparr>"

text \<open>A second program on the same heap: calling handler 14 removes every handler of
  \<open>Base\<close> and subscribes the function 19, so far no handler, to \<open>Derived\<close>; any
  other handler returns.\<close>

definition call2 :: "val \<Rightarrow> val \<Rightarrow> task list world \<Rightarrow> exn option \<times> task list world" where
  "call2 f e w =
     (if f = Ref 14
        then (None, snd (subscribe (Ref 8) (Ref 19) (snd (unsubscribeAll (Ref 6) w))))
      else (None, w))"

definition env2 :: "task list env" where
  "env2 = env0\<lparr>call := call2\<rparr>"

text \<open>The first bus with an exception handler that queues the handler, type and event of
  the context it is given, for the delivery to be tried again later; and with an
  executor that throws.\<close>

definition env3 :: "task list env" where
  "env3 = env0\<lparr>exceptionHandler :=
            (\<lambda>err c w. (None, w\<lparr>user := user w @ [Task (handler c) (eventType c) (event c)]\<rparr>))\<rparr>"

definition env4 :: "task list env" where
  "env4 = env0\<lparr>executor := (\<lambda>t w. (Some (Thrown (Str ''executor'')), w))\<rparr>"

text \<open>States of the registry. Handler 14 subscribed to \<open>Base\<close> and handler 15 to
  \<open>Derived\<close>; handler 14 subscribed to \<open>DeadEvent\<close>; handler 14 subscribed to \<open>Object\<close>.\<close>

definition worldA :: "task list world" where
  "worldA = snd (subscribe (Ref 8) (Ref 15) (snd (subscribe (Ref 6) (Ref 14) world0)))"

definition worldD :: "task list world" where
  "worldD = snd (subscribe (Ref 4) (Ref 14) world0)"

definition worldO :: "task list world" where
  "worldO = snd (subscribe (Ref 1) (Ref 14) world0)"


text \<open>Handler 14 subscribed to \<open>Derived\<close> and handler 15 to \<open>Base\<close>.\<close>

definition worldC :: "task list world" where
  "worldC = snd (subscribe (Ref 6) (Ref 15) (snd (subscribe (Ref 8) (Ref 14) world0)))"

section \<open>Properties of the model\<close>

text \<open>Lemmas about the loops, the resolver, delivery and \<open>post\<close>, shared by the proofs of
  the claims.\<close>

subsection \<open>The loops of \<open>post\<close> and its snapshot\<close>

lemma pushRecs_eq:
  "pushRecs type s (hs, d) = (hs @ map (\<lambda>rec. (fn rec, type)) s, d + length s)"
  by (induction s arbitrary: hs d) simp_all

lemma collectHandlers_eq:
  "collectHandlers reg types (hs, d)
     = (hs @ snapshot reg types, d + length (snapshot reg types))"
proof (induction types arbitrary: hs d)
  case Nil
  show ?case by (simp add: snapshot_def)
next
  case (Cons t ts)
  show ?case
  proof (cases "reg t")
    case None
    with Cons show ?thesis by (simp add: snapshot_def)
  next
    case (Some s)
    with Cons show ?thesis by (simp add: snapshot_def pushRecs_eq)
  qed
qed

lemma collectHandlers_snapshot:
  "collectHandlers reg types ([], 0) = (snapshot reg types, length (snapshot reg types))"
  by (simp add: collectHandlers_eq)

termination post
  by (relation "measure (\<lambda>(env, dl, ev, w).
                  if instanceofDeadEvent (rt env) (hp w) ev then 0 else 1)")
     (simp_all add: newDeadEvent_def collectHandlers_snapshot)

declare post.simps [simp del]

lemma snapshot_Nil [simp]: "snapshot reg [] = []"
  by (simp add: snapshot_def)

lemma snapshot_empty:
  "\<forall>t\<in>set types. getSubscriptionCount t w = 0 \<Longrightarrow> snapshot (registry w) types = []"
  by (induction types) (auto simp: snapshot_def getSubscriptionCount_def split: option.splits)

lemma snapshot_member:
  "A \<in> set types \<Longrightarrow> reg A = Some recs \<Longrightarrow> rec \<in> set recs \<Longrightarrow>
   (fn rec, A) \<in> set (snapshot reg types)"
  by (auto simp: snapshot_def intro!: bexI [of _ A])



lemma subscribe_registers:
  assumes "\<forall>recs. registry w A = Some recs \<longrightarrow> (\<forall>r\<in>set recs. rid r < nextRec w)"
  shows "registry (snd (subscribe A f w)) A =
           Some ((case registry w A of Some s \<Rightarrow> s | None \<Rightarrow> []) @ [\<lparr>rid = nextRec w, fn = f\<rparr>])"
proof -
  have "\<lparr>rid = nextRec w, fn = f\<rparr> \<notin> set (case registry w A of Some s \<Rightarrow> s | None \<Rightarrow> [])"
  proof (cases "registry w A")
    case None
    then show ?thesis by simp
  next
    case (Some recs)
    with assms have "\<forall>r\<in>set recs. rid r < nextRec w" by simp
    then have "\<lparr>rid = nextRec w, fn = f\<rparr> \<notin> set recs" by force
    with Some show ?thesis by simp
  qed
  then show ?thesis by (simp add: subscribe_def setAdd_def Let_def)
qed

subsection \<open>Reading a run\<close>

lemma invocations_append: "invocations (xs @ ys) = invocations xs @ invocations ys"
  by (induction xs rule: invocations.induct) simp_all


lemma deadPosts_append: "deadPosts (xs @ ys) = deadPosts xs @ deadPosts ys"
  by (induction xs rule: deadPosts.induct) simp_all

lemma ownCalls_invocations: "deadPosts tr = [] \<Longrightarrow> ownCalls tr = invocations tr"
  by (induction tr rule: ownCalls.induct) simp_all

lemma ownSubmissions_submissions: "deadPosts tr = [] \<Longrightarrow> ownSubmissions tr = submissions tr"
  by (induction tr rule: ownSubmissions.induct) simp_all

lemma invocations_submits [simp]:
  "invocations (map (\<lambda>(f, t). Submit (Task f t e)) hs) = []"
  by (induction hs) auto

lemma submissions_submits [simp]:
  "submissions (map (\<lambda>(f, t). Submit (Task f t e)) hs) = map (\<lambda>(f, t). Task f t e) hs"
  by (induction hs) auto

lemma ownSubmissions_submits [simp]:
  "ownSubmissions (map (\<lambda>(f, t). Submit (Task f t e)) hs) = map (\<lambda>(f, t). Task f t e) hs"
  by (induction hs) auto

subsection \<open>The resolver\<close>

lemma getTypesFor_non_object:
  "\<not> truthy ev \<or> typeof h ev \<noteq> TObject \<Longrightarrow> getTypesFor R h ev b cache = Some (Inr [], cache)"
  by (simp add: getTypesFor_def)

lemma nullish_not_truthy: "nullish ev \<Longrightarrow> \<not> truthy ev"
  by (cases ev) simp_all

lemma truthy_object_Ref: "truthy ev \<Longrightarrow> typeof h ev = TObject \<Longrightarrow> \<exists>r. ev = Ref r"
  by (cases ev) simp_all

lemma ctorChain_stop:
  "\<not> truthy c \<or> c = Ref (objectCtor R) \<Longrightarrow> ctorChain R h c = Some (Inr [])"
  by (subst ctorChain.simps) auto

lemma ctorChain_step:
  "truthy c \<Longrightarrow> c \<noteq> Ref (objectCtor R) \<Longrightarrow> nextCtor R h c = Inr c' \<Longrightarrow>
   ctorChain R h c =
     Option.bind (ctorChain R h c')
       (\<lambda>r. case r of Inl e \<Rightarrow> Some (Inl e) | Inr out \<Rightarrow> Some (Inr (c # out)))"
  by (subst ctorChain.simps) simp

lemma ctorChain_throw:
  "truthy c \<Longrightarrow> c \<noteq> Ref (objectCtor R) \<Longrightarrow> nextCtor R h c = Inl e \<Longrightarrow>
   ctorChain R h c = Some (Inl e)"
  by (subst ctorChain.simps) simp

lemma ctorChain_Inr_cases:
  assumes "ctorChain R h c = Some (Inr out)"
  shows "(out = [] \<and> (\<not> truthy c \<or> c = Ref (objectCtor R))) \<or>
         (\<exists>c' out'. truthy c \<and> c \<noteq> Ref (objectCtor R) \<and> nextCtor R h c = Inr c'
            \<and> ctorChain R h c' = Some (Inr out') \<and> out = c # out')"
proof (cases "truthy c \<and> c \<noteq> Ref (objectCtor R)")
  case False
  with assms show ?thesis by (auto simp: ctorChain_stop)
next
  case True
  show ?thesis
  proof (cases "nextCtor R h c")
    case (Inl e)
    with True assms show ?thesis by (simp add: ctorChain_throw)
  next
    case (Inr c')
    with True assms show ?thesis
      by (auto simp: ctorChain_step split: bind_splits sum.splits)
  qed
qed

lemma ctorChain_no_object:
  "ctorChain R h c = Some (Inr out) \<Longrightarrow> Ref (objectCtor R) \<notin> set out"
proof (induction out arbitrary: c)
  case Nil
  show ?case by simp
next
  case (Cons a out)
  from ctorChain_Inr_cases [OF Cons.prems] Cons.IH show ?case by auto
qed

lemma ctorChain_member:
  "ctorChain R h c = Some (Inr out) \<Longrightarrow> x \<in> set out \<Longrightarrow>
   \<exists>out'. ctorChain R h x = Some (Inr out') \<and> length out' \<le> length out"
proof (induction out arbitrary: c)
  case Nil
  then show ?case by simp
next
  case (Cons a out)
  from ctorChain_Inr_cases [OF Cons.prems(1)] obtain c' where
    a: "a = c" and c': "ctorChain R h c' = Some (Inr out)"
    by auto
  show ?case
  proof (cases "x = a")
    case True
    with a Cons.prems(1) show ?thesis by auto
  next
    case False
    with Cons.prems(2) have "x \<in> set out" by simp
    from Cons.IH [OF c' this] show ?thesis by auto
  qed
qed

lemma ctorChain_distinct:
  "ctorChain R h c = Some (Inr out) \<Longrightarrow> distinct out"
proof (induction out arbitrary: c)
  case Nil
  show ?case by simp
next
  case (Cons a out)
  from ctorChain_Inr_cases [OF Cons.prems] obtain c' where
    a: "a = c" and c': "ctorChain R h c' = Some (Inr out)"
    by auto
  have "a \<notin> set out"
  proof
    assume "a \<in> set out"
    from ctorChain_member [OF c' this] a Cons.prems show False by auto
  qed
  with Cons.IH [OF c'] show ?case by simp
qed

lemma chainWithin_returns:
  "chainWithin n R h c \<Longrightarrow> \<exists>out. ctorChain R h c = Some (Inr out)"
proof (induction n arbitrary: c)
  case 0
  then show ?case by (simp add: ctorChain_stop)
next
  case (Suc n)
  show ?case
  proof (cases "truthy c \<and> c \<noteq> Ref (objectCtor R)")
    case False
    then show ?thesis by (auto simp: ctorChain_stop)
  next
    case True
    with Suc.prems obtain c' where nx: "nextCtor R h c = Inr c'" and cw: "chainWithin n R h c'"
      by (auto split: sum.splits)
    from Suc.IH [OF cw] obtain out where "ctorChain R h c' = Some (Inr out)" by blast
    with True nx show ?thesis by (simp add: ctorChain_step)
  qed
qed

lemma getTypesFor_cache_fresh:
  assumes "getTypesFor R h ev b cache = Some (r, c)" and "cache k = None" and "k \<noteq> ev"
  shows "c k = None"
  using assms
  by (auto simp: getTypesFor_def Let_def split: if_splits option.splits sum.splits bind_splits)

lemma getTypesFor_distinct:
  assumes "getTypesFor R h ev b cache = Some (Inr types, c)"
    and "\<forall>ts. cache ev = Some ts \<longrightarrow> distinct ts"
  shows "distinct types"
proof (cases "truthy ev \<and> typeof h ev = TObject")
  case False
  with assms(1) show ?thesis by (auto simp: getTypesFor_non_object)
next
  case obj: True
  show ?thesis
  proof (cases "cache ev")
    case (Some cached)
    with assms obj show ?thesis by (auto simp: getTypesFor_def split: if_splits)
  next
    case None
    from obj obtain r where r: "ev = Ref r" using truthy_object_Ref by blast
    from assms(1) None obj r obtain out where
      ch: "ctorChain R h (orNull (lookupProp (fresh h) (objs h) r ''constructor'')) = Some (Inr out)"
      and ty: "types = (if b then out @ [Ref (objectCtor R)] else out)"
      by (auto simp: getTypesFor_def Let_def split: bind_splits sum.splits if_splits)
    from ctorChain_distinct [OF ch] ctorChain_no_object [OF ch] ty show ?thesis by auto
  qed
qed

lemma getTypesFor_keeps_distinct:
  assumes "getTypesFor R h ev b cache = Some (r, c)"
    and "\<forall>k ts. cache k = Some ts \<longrightarrow> distinct ts"
  shows "\<forall>k ts. c k = Some ts \<longrightarrow> distinct ts"
proof (cases "c = cache")
  case True
  with assms(2) show ?thesis by simp
next
  case False
  with assms(1) obtain types where "r = Inr types" and c: "c = cache(ev \<mapsto> types)"
    by (auto simp: getTypesFor_def Let_def split: if_splits option.splits sum.splits bind_splits)
  with assms have "distinct types"
    using getTypesFor_distinct [of R h ev b cache types c] by simp
  with c assms(2) show ?thesis by auto
qed

lemma getTypesFor_root:
  assumes "getTypesFor R h ev True cache = Some (Inr types, c)"
    and "truthy ev" and "typeof h ev = TObject"
  shows "Ref (objectCtor R) \<in> set types"
  using assms
  by (auto simp: getTypesFor_def Let_def split: option.splits bind_splits sum.splits if_splits)

lemma not_function_not_instance:
  "typeof h ev \<noteq> TObject \<Longrightarrow> typeof h ev \<noteq> TFunction \<Longrightarrow> \<not> instanceofDeadEvent R h ev"
  by (cases ev) (simp_all split: if_splits)

lemma allocated_not_fresh: "allocated h ev \<Longrightarrow> Ref (fresh h) \<noteq> ev"
  by (cases ev) auto

lemma newDeadEvent_instance:
  "instanceofDeadEvent R (snd (newDeadEvent R s ev h)) (Ref (fresh h))"
  by (simp add: newDeadEvent_def)

lemma newDeadEvent_object:
  "objs (snd (newDeadEvent R s ev h)) (fresh h) =
     \<lparr>proto = Some (deadEventProto R), props = [''source'' \<mapsto> s, ''event'' \<mapsto> ev],
      callable = False\<rparr>"
  by (simp add: newDeadEvent_def)

lemma wrapper_types:
  assumes "deadEventIntact R h" and "cache (Ref (fresh h)) = None"
  shows "getTypesFor R (snd (newDeadEvent R s ev h)) (Ref (fresh h)) b cache =
           Some (Inr (deadEventCtor R h # (if b then [Ref (objectCtor R)] else [])),
                 cache(Ref (fresh h) \<mapsto>
                   deadEventCtor R h # (if b then [Ref (objectCtor R)] else [])))"
proof -
  let ?h = "snd (newDeadEvent R s ev h)"
  let ?d = "fresh h"
  from assms(1) obtain dr op where
    D: "deadEventCtor R h = Ref dr" and dr: "dr \<noteq> objectCtor R" "dr < fresh h"
    and dp: "deadEventProto R < fresh h"
    and pr: "props (objs h dr) ''prototype'' = Some (Ref (deadEventProto R))"
    and po: "proto (objs h (deadEventProto R)) = Some op" and op: "op < fresh h"
    and oc: "props (objs h op) ''constructor'' = Some (Ref (objectCtor R))"
    by (auto simp: deadEventIntact_def split: val.splits option.splits)
  from D have pc: "props (objs h (deadEventProto R)) ''constructor'' = Some (Ref dr)"
    by (auto simp: deadEventCtor_def split: option.splits)
  from dp obtain n where n: "fresh h = Suc n" by (cases "fresh h") auto
  have o1: "objs ?h (deadEventProto R) = objs h (deadEventProto R)"
    and o2: "objs ?h dr = objs h dr" and o3: "objs ?h op = objs h op"
    and fr: "fresh ?h = Suc (Suc n)"
    using dp dr op n by (simp_all add: newDeadEvent_def)
  have c0: "getProp R ?h (Ref ?d) ''constructor'' = Inr (Ref dr)"
    using pc dp n by (simp add: newDeadEvent_def)
  have nx: "nextCtor R ?h (Ref dr) = Inr (Ref (objectCtor R))"
    by (simp add: nextCtor_def fr o1 o2 o3 pr po oc optProp_def orNull_def)
  have ch: "ctorChain R ?h (Ref dr) = Some (Inr [Ref dr])"
    using dr(1) by (simp add: ctorChain_step [OF _ _ nx] ctorChain_stop)
  have ty: "typeof ?h (Ref ?d) = TObject"
    by (simp add: newDeadEvent_def)
  show ?thesis
    using assms(2)
    by (simp add: getTypesFor_def ty c0 orNull_def ch D Let_def
             del: getProp.simps typeof.simps)
qed

subsection \<open>Delivery\<close>

lemma deliver_cases:
  assumes "reporterReturns env"
  obtains w' where "deliver env f t e w = (None, w', [Invoke f t e None])"
  | w' err where "deliver env f t e w =
      (None, w', [Invoke f t e (Some err),
                  Report err \<lparr>event = e, eventType = t, handler = f, eventBus = self env\<rparr> None])"
proof (cases "call env f e w")
  case (Pair r w1)
  show ?thesis
  proof (cases r)
    case None
    with Pair that(1) show ?thesis by (simp add: deliver_def)
  next
    case (Some err)
    obtain r2 w2 where h: "exceptionHandler env err
        \<lparr>event = e, eventType = t, handler = f, eventBus = self env\<rparr> w1 = (r2, w2)"
      by (cases "exceptionHandler env err
        \<lparr>event = e, eventType = t, handler = f, eventBus = self env\<rparr> w1")
    with assms have "r2 = None"
      by (metis fst_conv reporterReturns_def)
    with Pair Some h that(2) show ?thesis by (simp add: deliver_def)
  qed
qed

lemma deliverAll_sync:
  assumes "reporterReturns env"
  shows "\<exists>w' tr. deliverAll (deliver env) hs e w = (None, w', tr)
           \<and> invocations tr = map (\<lambda>(f, t). (f, t, e)) hs
           \<and> reportedEach (self env) tr \<and> deadPosts tr = [] \<and> submissions tr = []"
proof (induction hs arbitrary: w)
  case Nil
  show ?case by simp
next
  case (Cons a hs)
  obtain f t where a: "a = (f, t)" by (cases a)
  show ?case
  proof (rule deliver_cases [OF assms, of f t e w])
    fix w1
    assume d: "deliver env f t e w = (None, w1, [Invoke f t e None])"
    from Cons [of w1] obtain w' tr where
      "deliverAll (deliver env) hs e w1 = (None, w', tr)"
      "invocations tr = map (\<lambda>(f, t). (f, t, e)) hs"
      "reportedEach (self env) tr" "deadPosts tr = []" "submissions tr = []"
      by blast
    with a d show ?thesis by simp
  next
    fix w1 err
    assume d: "deliver env f t e w =
      (None, w1, [Invoke f t e (Some err),
                  Report err \<lparr>event = e, eventType = t, handler = f, eventBus = self env\<rparr> None])"
    from Cons [of w1] obtain w' tr where
      "deliverAll (deliver env) hs e w1 = (None, w', tr)"
      "invocations tr = map (\<lambda>(f, t). (f, t, e)) hs"
      "reportedEach (self env) tr" "deadPosts tr = []" "submissions tr = []"
      by blast
    with a d show ?thesis by simp
  qed
qed

lemma deliverAll_async:
  assumes "executorReturns env"
  shows "\<exists>w'. deliverAll (asyncDeliver env) hs e w =
           (None, w', map (\<lambda>(f, t). Submit (Task f t e)) hs)"
proof (induction hs arbitrary: w)
  case Nil
  show ?case by simp
next
  case (Cons a hs)
  obtain f t where a: "a = (f, t)" by (cases a)
  obtain r w1 where x: "executor env (Task f t e) w = (r, w1)"
    by (cases "executor env (Task f t e) w")
  with assms have r: "r = None"
    by (metis executorReturns_def fst_conv)
  from x r have d: "asyncDeliver env f t e w = (None, w1, [Submit (Task f t e)])"
    by (simp add: asyncDeliver_def)
  from Cons [of w1] obtain w' where
    "deliverAll (asyncDeliver env) hs e w1 = (None, w', map (\<lambda>(f, t). Submit (Task f t e)) hs)"
    by blast
  with a d show ?case by simp
qed




subsection \<open>The cases of \<open>post\<close>\<close>

lemma post_nullish: "nullish ev \<Longrightarrow> post env dl ev w = Some (Inr 0, w, [])"
  by (simp add: post.simps)

lemma post_throws:
  assumes "\<not> nullish ev"
    and "getTypesFor (rt env) (hp w) ev (registry w (Ref (objectCtor (rt env))) \<noteq> None)
           (typeCache w) = Some (Inl e, c)"
  shows "post env dl ev w = Some (Inl e, w\<lparr>typeCache := c\<rparr>, [])"
  using assms by (simp add: post.simps)

lemma post_handled:
  assumes "getTypesFor (rt env) (hp w) ev (registry w (Ref (objectCtor (rt env))) \<noteq> None)
           (typeCache w) = Some (Inr types, c)"
    and "snapshot (registry w) types \<noteq> []"
  shows "post env dl ev w =
           (case deliverAll dl (snapshot (registry w) types) ev (w\<lparr>typeCache := c\<rparr>) of
              (Some e, w2, tr) \<Rightarrow> Some (Inl e, w2, tr)
            | (None, w2, tr) \<Rightarrow> Some (Inr (length (snapshot (registry w) types)), w2, tr))"
proof -
  have "\<not> nullish ev"
  proof
    assume "nullish ev"
    then have "getTypesFor (rt env) (hp w) ev (registry w (Ref (objectCtor (rt env))) \<noteq> None)
           (typeCache w) = Some (Inr [], typeCache w)"
      by (simp add: getTypesFor_non_object nullish_not_truthy)
    with assms show False by simp
  qed
  with assms show ?thesis
    by (simp add: post.simps collectHandlers_snapshot split: prod.splits option.splits)
qed

lemma post_dead_instance:
  assumes "\<not> nullish ev"
    and "getTypesFor (rt env) (hp w) ev (registry w (Ref (objectCtor (rt env))) \<noteq> None)
           (typeCache w) = Some (Inr types, c)"
    and "snapshot (registry w) types = []"
    and "instanceofDeadEvent (rt env) (hp w) ev"
  shows "post env dl ev w = Some (Inr 0, w\<lparr>typeCache := c\<rparr>, [])"
  using assms by (simp add: post.simps collectHandlers_snapshot)

lemma post_unhandled:
  assumes "\<not> nullish ev"
    and "getTypesFor (rt env) (hp w) ev (registry w (Ref (objectCtor (rt env))) \<noteq> None)
           (typeCache w) = Some (Inr types, c)"
    and "snapshot (registry w) types = []"
    and "\<not> instanceofDeadEvent (rt env) (hp w) ev"
  shows "post env dl ev w =
           (case post env dl (Ref (fresh (hp w)))
                   (w\<lparr>typeCache := c, hp := snd (newDeadEvent (rt env) (self env) ev (hp w))\<rparr>) of
              None \<Rightarrow> None
            | Some (Inl e, w4, tr) \<Rightarrow>
                Some (Inl e, w4,
                  PostDead (Ref (fresh (hp w)))
                    (objs (snd (newDeadEvent (rt env) (self env) ev (hp w))) (fresh (hp w))) # tr)
            | Some (Inr n, w4, tr) \<Rightarrow>
                Some (Inr 0, w4,
                  PostDead (Ref (fresh (hp w)))
                    (objs (snd (newDeadEvent (rt env) (self env) ev (hp w))) (fresh (hp w))) # tr))"
  using assms
  by (subst post.simps)
     (simp add: collectHandlers_snapshot newDeadEvent_def split: option.splits sum.splits)

lemma post_total:
  assumes dl: "\<And>hs e w. \<exists>w' tr. deliverAll dl hs e w = (None, w', tr) \<and> Q hs e tr"
    and di: "deadEventIntact (rt env) (hp w)"
    and fc: "typeCache w (Ref (fresh (hp w))) = None"
    and al: "allocated (hp w) ev"
    and nn: "\<not> nullish ev"
    and res: "getTypesFor (rt env) (hp w) ev (registry w (Ref (objectCtor (rt env))) \<noteq> None)
                (typeCache w) = Some (Inr types, c)"
  shows "\<exists>w' tr. post env dl ev w = Some (Inr (length (snapshot (registry w) types)), w', tr)
           \<and> (if snapshot (registry w) types \<noteq> [] \<or> instanceofDeadEvent (rt env) (hp w) ev
               then Q (snapshot (registry w) types) ev tr
               else \<exists>tr'. tr = PostDead (Ref (fresh (hp w))) (wrapperObj env ev) # tr'
                      \<and> Q (snapshot (registry w) (wrapperTypes env w)) (Ref (fresh (hp w))) tr')"
proof -
  let ?snap = "snapshot (registry w) types"
  have Q0: "Q [] e []" for e
    using dl [of "[]" e w] by simp
  show ?thesis
  proof (cases "?snap = []")
    case False
    from dl [of ?snap ev "w\<lparr>typeCache := c\<rparr>"] obtain w' tr where
      "deliverAll dl ?snap ev (w\<lparr>typeCache := c\<rparr>) = (None, w', tr)" "Q ?snap ev tr"
      by blast
    with False show ?thesis
      by (simp add: post_handled [OF res False])
  next
    case True
    show ?thesis
    proof (cases "instanceofDeadEvent (rt env) (hp w) ev")
      case inst: True
      with True Q0 show ?thesis
        by (simp add: post_dead_instance [OF nn res True inst])
    next
      case inst: False
      let ?d = "fresh (hp w)"
      let ?h3 = "snd (newDeadEvent (rt env) (self env) ev (hp w))"
      let ?w3 = "w\<lparr>typeCache := c, hp := ?h3\<rparr>"
      let ?wt = "wrapperTypes env w"
      let ?c3 = "c(Ref ?d \<mapsto> ?wt)"
      have cf: "c (Ref ?d) = None"
        using getTypesFor_cache_fresh [OF res fc] allocated_not_fresh [OF al] by simp
      have res3: "getTypesFor (rt env) (hp ?w3) (Ref ?d)
                    (registry ?w3 (Ref (objectCtor (rt env))) \<noteq> None) (typeCache ?w3)
                  = Some (Inr ?wt, ?c3)"
        using wrapper_types [where R = "rt env" and h = "hp w" and cache = c
                and s = "self env" and ev = ev
                and b = "registry w (Ref (objectCtor (rt env))) \<noteq> None", OF di cf]
        by (simp add: wrapperTypes_def)
      have inst3: "instanceofDeadEvent (rt env) (hp ?w3) (Ref ?d)"
        by (simp add: newDeadEvent_instance del: instanceofDeadEvent.simps)
      have ob: "objs ?h3 ?d = wrapperObj env ev"
        by (simp add: newDeadEvent_object wrapperObj_def)
      have reg3: "registry ?w3 = registry w" by simp
      have inner: "\<exists>n w4 tr'. post env dl (Ref ?d) ?w3 = Some (Inr n, w4, tr')
                      \<and> Q (snapshot (registry w) ?wt) (Ref ?d) tr'"
      proof (cases "snapshot (registry w) ?wt = []")
        case wn: True
        then have "snapshot (registry ?w3) ?wt = []" by simp
        from post_dead_instance [OF _ res3 this inst3, of dl] wn Q0 show ?thesis
          by simp
      next
        case wn: False
        then have wn3: "snapshot (registry ?w3) ?wt \<noteq> []" by simp
        from dl [of "snapshot (registry w) ?wt" "Ref ?d" "?w3\<lparr>typeCache := ?c3\<rparr>"]
        obtain w' tr where
          "deliverAll dl (snapshot (registry w) ?wt) (Ref ?d) (?w3\<lparr>typeCache := ?c3\<rparr>)
             = (None, w', tr)"
          "Q (snapshot (registry w) ?wt) (Ref ?d) tr"
          by blast
        with post_handled [OF res3 wn3, of dl] show ?thesis
          by simp
      qed
      then obtain n w4 tr' where
        "post env dl (Ref ?d) ?w3 = Some (Inr n, w4, tr')"
        "Q (snapshot (registry w) ?wt) (Ref ?d) tr'"
        by blast
      with True inst ob show ?thesis
        by (simp add: post_unhandled [OF nn res True inst])
    qed
  qed
qed

lemma post_sync:
  assumes rr: "reporterReturns env"
    and di: "deadEventIntact (rt env) (hp w)"
    and fc: "typeCache w (Ref (fresh (hp w))) = None"
    and al: "allocated (hp w) ev"
    and nn: "\<not> nullish ev"
    and res: "getTypesFor (rt env) (hp w) ev (registry w (Ref (objectCtor (rt env))) \<noteq> None)
                (typeCache w) = Some (Inr types, c)"
  shows "\<exists>w' tr. post env (deliver env) ev w =
             Some (Inr (length (snapshot (registry w) types)), w', tr)
           \<and> (if snapshot (registry w) types \<noteq> [] \<or> instanceofDeadEvent (rt env) (hp w) ev
               then invocations tr = map (\<lambda>(f, t). (f, t, ev)) (snapshot (registry w) types)
                    \<and> reportedEach (self env) tr \<and> deadPosts tr = [] \<and> submissions tr = []
               else \<exists>tr'. tr = PostDead (Ref (fresh (hp w))) (wrapperObj env ev) # tr'
                      \<and> invocations tr' =
                            map (\<lambda>(f, t). (f, t, Ref (fresh (hp w))))
                              (snapshot (registry w) (wrapperTypes env w))
                      \<and> reportedEach (self env) tr' \<and> deadPosts tr' = []
                      \<and> submissions tr' = [])"
  by (rule post_total [where Q = "\<lambda>hs e tr. invocations tr = map (\<lambda>(f, t). (f, t, e)) hs
            \<and> reportedEach (self env) tr \<and> deadPosts tr = [] \<and> submissions tr = []",
          OF deliverAll_sync [OF rr] di fc al nn res])

lemma post_sync_handled:
  assumes rr: "reporterReturns env"
    and res: "getTypesFor (rt env) (hp w) ev (registry w (Ref (objectCtor (rt env))) \<noteq> None)
                (typeCache w) = Some (Inr types, c)"
    and ne: "snapshot (registry w) types \<noteq> []"
  shows "\<exists>w' tr. post env (deliver env) ev w =
             Some (Inr (length (snapshot (registry w) types)), w', tr)
           \<and> invocations tr = map (\<lambda>(f, t). (f, t, ev)) (snapshot (registry w) types)
           \<and> reportedEach (self env) tr \<and> deadPosts tr = [] \<and> submissions tr = []"
proof -
  from deliverAll_sync [OF rr, of "snapshot (registry w) types" ev "w\<lparr>typeCache := c\<rparr>"]
  obtain w' tr where
    "deliverAll (deliver env) (snapshot (registry w) types) ev (w\<lparr>typeCache := c\<rparr>)
       = (None, w', tr)"
    "invocations tr = map (\<lambda>(f, t). (f, t, ev)) (snapshot (registry w) types)"
    "reportedEach (self env) tr" "deadPosts tr = []" "submissions tr = []"
    by blast
  then show ?thesis by (simp add: post_handled [OF res ne])
qed

lemma post_async:
  assumes ex: "executorReturns env"
    and di: "deadEventIntact (rt env) (hp w)"
    and fc: "typeCache w (Ref (fresh (hp w))) = None"
    and al: "allocated (hp w) ev"
    and nn: "\<not> nullish ev"
    and res: "getTypesFor (rt env) (hp w) ev (registry w (Ref (objectCtor (rt env))) \<noteq> None)
                (typeCache w) = Some (Inr types, c)"
  shows "\<exists>w' tr. post env (asyncDeliver env) ev w =
             Some (Inr (length (snapshot (registry w) types)), w', tr)
           \<and> (if snapshot (registry w) types \<noteq> [] \<or> instanceofDeadEvent (rt env) (hp w) ev
               then tr = map (\<lambda>(f, t). Submit (Task f t ev)) (snapshot (registry w) types)
               else \<exists>tr'. tr = PostDead (Ref (fresh (hp w))) (wrapperObj env ev) # tr'
                      \<and> tr' = map (\<lambda>(f, t). Submit (Task f t (Ref (fresh (hp w)))))
                                 (snapshot (registry w) (wrapperTypes env w)))"
proof (rule post_total [where Q = "\<lambda>hs e tr. tr = map (\<lambda>(f, t). Submit (Task f t e)) hs",
          OF _ di fc al nn res])
  fix hs e and w1 :: "'a world"
  from deliverAll_async [OF ex, of hs e w1]
  show "\<exists>w' tr. deliverAll (asyncDeliver env) hs e w1 = (None, w', tr)
          \<and> tr = map (\<lambda>(f, t). Submit (Task f t e)) hs"
    by blast
qed

text \<open>A run of \<open>post\<close> in which anything was done is one in which the types of the
  event resolved.\<close>

lemma post_acts_resolved:
  assumes "post env dl ev w = Some (r, w', tr)" and "tr \<noteq> []"
  shows "\<exists>types c. getTypesFor (rt env) (hp w) ev
            (registry w (Ref (objectCtor (rt env))) \<noteq> None) (typeCache w) = Some (Inr types, c)"
proof (cases "getTypesFor (rt env) (hp w) ev
            (registry w (Ref (objectCtor (rt env))) \<noteq> None) (typeCache w)")
  case None
  with assms show ?thesis
    by (subst (asm) post.simps) (simp split: if_splits)
next
  case (Some a)
  obtain x c where a: "a = (x, c)" by (cases a)
  show ?thesis
  proof (cases x)
    case (Inl e)
    with assms Some a show ?thesis
      by (subst (asm) post.simps) (simp split: if_splits)
  next
    case (Inr types)
    with Some a show ?thesis by simp
  qed
qed

subsection \<open>The loop of \<open>post\<close> and the delivery the spec describes\<close>

lemma isolatedRun_trace:
  "invocations (snd (isolatedRun env hs e w)) = map (\<lambda>(f, t). (f, t, e)) hs
   \<and> reportedEach (self env) (snd (isolatedRun env hs e w))
   \<and> deadPosts (snd (isolatedRun env hs e w)) = []
   \<and> submissions (snd (isolatedRun env hs e w)) = []"
proof (induction hs arbitrary: w)
  case Nil
  show ?case by simp
next
  case (Cons a hs)
  obtain f t where a: "a = (f, t)" by (cases a)
  obtain r w1 where c: "call env f e w = (r, w1)" by (cases "call env f e w")
  show ?case
  proof (cases r)
    case None
    obtain w' tr where i: "isolatedRun env hs e w1 = (w', tr)"
      by (cases "isolatedRun env hs e w1")
    with Cons [of w1] a c None show ?thesis by simp
  next
    case (Some err)
    obtain r2 w2 where x: "exceptionHandler env err
        \<lparr>event = e, eventType = t, handler = f, eventBus = self env\<rparr> w1 = (r2, w2)"
      by (cases "exceptionHandler env err
        \<lparr>event = e, eventType = t, handler = f, eventBus = self env\<rparr> w1")
    obtain w' tr where i: "isolatedRun env hs e w2 = (w', tr)"
      by (cases "isolatedRun env hs e w2")
    with Cons [of w2] a c Some x show ?thesis by simp
  qed
qed

lemma deliverAll_isolatedRun:
  assumes "reporterReturns env"
  shows "deliverAll (deliver env) hs e w =
           (None, fst (isolatedRun env hs e w), snd (isolatedRun env hs e w))"
proof (induction hs arbitrary: w)
  case Nil
  show ?case by simp
next
  case (Cons a hs)
  obtain f t where a: "a = (f, t)" by (cases a)
  obtain r w1 where c: "call env f e w = (r, w1)" by (cases "call env f e w")
  show ?case
  proof (cases r)
    case None
    with c have d: "deliver env f t e w = (None, w1, [Invoke f t e None])"
      by (simp add: deliver_def)
    obtain w' tr where i: "isolatedRun env hs e w1 = (w', tr)"
      by (cases "isolatedRun env hs e w1")
    with Cons [of w1] a c None d show ?thesis by simp
  next
    case (Some err)
    let ?cx = "\<lparr>event = e, eventType = t, handler = f, eventBus = self env\<rparr>"
    obtain r2 w2 where x: "exceptionHandler env err ?cx w1 = (r2, w2)"
      by (cases "exceptionHandler env err ?cx w1")
    with assms have r2: "r2 = None"
      by (metis fst_conv reporterReturns_def)
    from c Some x r2 have d: "deliver env f t e w =
        (None, w2, [Invoke f t e (Some err), Report err ?cx None])"
      by (simp add: deliver_def)
    obtain w' tr where i: "isolatedRun env hs e w2 = (w', tr)"
      by (cases "isolatedRun env hs e w2")
    with Cons [of w2] a c Some x r2 d show ?thesis by simp
  qed
qed

lemma submittedRun_trace:
  "snd (submittedRun env hs e w) = map (\<lambda>(f, t). Submit (Task f t e)) hs"
proof (induction hs arbitrary: w)
  case Nil
  show ?case by simp
next
  case (Cons a hs)
  obtain f t where a: "a = (f, t)" by (cases a)
  obtain w' tr where i: "submittedRun env hs e (snd (executor env (Task f t e) w)) = (w', tr)"
    by (cases "submittedRun env hs e (snd (executor env (Task f t e) w))")
  with Cons [of "snd (executor env (Task f t e) w)"] a show ?case by simp
qed

lemma deliverAll_submittedRun:
  assumes "executorReturns env"
  shows "deliverAll (asyncDeliver env) hs e w =
           (None, fst (submittedRun env hs e w), snd (submittedRun env hs e w))"
proof (induction hs arbitrary: w)
  case Nil
  show ?case by simp
next
  case (Cons a hs)
  obtain f t where a: "a = (f, t)" by (cases a)
  obtain r w1 where x: "executor env (Task f t e) w = (r, w1)"
    by (cases "executor env (Task f t e) w")
  with assms have r: "r = None"
    by (metis executorReturns_def fst_conv)
  from x r have d: "asyncDeliver env f t e w = (None, w1, [Submit (Task f t e)])"
    by (simp add: asyncDeliver_def)
  obtain w' tr where i: "submittedRun env hs e w1 = (w', tr)"
    by (cases "submittedRun env hs e w1")
  with Cons [of w1] a x d show ?case by simp
qed

lemma post_total_run:
  assumes dl: "\<And>hs e w0. \<exists>w' tr. deliverAll dl hs e w0 = (None, w', tr) \<and> Q hs e w0 w' tr"
    and di: "deadEventIntact (rt env) (hp w)"
    and fc: "typeCache w (Ref (fresh (hp w))) = None"
    and al: "allocated (hp w) ev"
    and nn: "\<not> nullish ev"
    and res: "getTypesFor (rt env) (hp w) ev (registry w (Ref (objectCtor (rt env))) \<noteq> None)
                (typeCache w) = Some (Inr types, c)"
  shows "\<exists>w' tr. post env dl ev w = Some (Inr (length (snapshot (registry w) types)), w', tr)
           \<and> (if snapshot (registry w) types \<noteq> [] \<or> instanceofDeadEvent (rt env) (hp w) ev
               then Q (snapshot (registry w) types) ev (w\<lparr>typeCache := c\<rparr>) w' tr
               else \<exists>tr'. tr = PostDead (Ref (fresh (hp w))) (wrapperObj env ev) # tr'
                      \<and> Q (snapshot (registry w) (wrapperTypes env w)) (Ref (fresh (hp w)))
                          (w\<lparr>typeCache := c(Ref (fresh (hp w)) \<mapsto> wrapperTypes env w),
                             hp := snd (newDeadEvent (rt env) (self env) ev (hp w))\<rparr>)
                          w' tr')"
proof -
  let ?snap = "snapshot (registry w) types"
  have Q0: "Q [] e w0 w0 []" for e w0
    using dl [of "[]" e w0] by simp
  show ?thesis
  proof (cases "?snap = []")
    case False
    from dl [of ?snap ev "w\<lparr>typeCache := c\<rparr>"] obtain w' tr where
      "deliverAll dl ?snap ev (w\<lparr>typeCache := c\<rparr>) = (None, w', tr)"
      "Q ?snap ev (w\<lparr>typeCache := c\<rparr>) w' tr"
      by blast
    with False show ?thesis
      by (simp add: post_handled [OF res False])
  next
    case True
    show ?thesis
    proof (cases "instanceofDeadEvent (rt env) (hp w) ev")
      case inst: True
      with True Q0 show ?thesis
        by (simp add: post_dead_instance [OF nn res True inst])
    next
      case inst: False
      let ?d = "fresh (hp w)"
      let ?h3 = "snd (newDeadEvent (rt env) (self env) ev (hp w))"
      let ?w3 = "w\<lparr>typeCache := c, hp := ?h3\<rparr>"
      let ?wt = "wrapperTypes env w"
      let ?c3 = "c(Ref ?d \<mapsto> ?wt)"
      let ?w4 = "w\<lparr>typeCache := ?c3, hp := ?h3\<rparr>"
      have cf: "c (Ref ?d) = None"
        using getTypesFor_cache_fresh [OF res fc] allocated_not_fresh [OF al] by simp
      have res3: "getTypesFor (rt env) (hp ?w3) (Ref ?d)
                    (registry ?w3 (Ref (objectCtor (rt env))) \<noteq> None) (typeCache ?w3)
                  = Some (Inr ?wt, ?c3)"
        using wrapper_types [where R = "rt env" and h = "hp w" and cache = c
                and s = "self env" and ev = ev
                and b = "registry w (Ref (objectCtor (rt env))) \<noteq> None", OF di cf]
        by (simp add: wrapperTypes_def)
      have inst3: "instanceofDeadEvent (rt env) (hp ?w3) (Ref ?d)"
        by (simp add: newDeadEvent_instance del: instanceofDeadEvent.simps)
      have ob: "objs ?h3 ?d = wrapperObj env ev"
        by (simp add: newDeadEvent_object wrapperObj_def)
      have w34: "?w3\<lparr>typeCache := ?c3\<rparr> = ?w4" by simp
      have inner: "\<exists>n w5 tr'. post env dl (Ref ?d) ?w3 = Some (Inr n, w5, tr')
                      \<and> Q (snapshot (registry w) ?wt) (Ref ?d) ?w4 w5 tr'"
      proof (cases "snapshot (registry w) ?wt = []")
        case wn: True
        then have "snapshot (registry ?w3) ?wt = []" by simp
        from post_dead_instance [OF _ res3 this inst3, of dl] wn Q0 [of "Ref ?d" ?w4] w34
        show ?thesis by simp
      next
        case wn: False
        then have wn3: "snapshot (registry ?w3) ?wt \<noteq> []" by simp
        from dl [of "snapshot (registry w) ?wt" "Ref ?d" ?w4]
        obtain w' tr where
          "deliverAll dl (snapshot (registry w) ?wt) (Ref ?d) ?w4 = (None, w', tr)"
          "Q (snapshot (registry w) ?wt) (Ref ?d) ?w4 w' tr"
          by blast
        with post_handled [OF res3 wn3, of dl] w34 show ?thesis
          by simp
      qed
      then obtain n w5 tr' where
        "post env dl (Ref ?d) ?w3 = Some (Inr n, w5, tr')"
        "Q (snapshot (registry w) ?wt) (Ref ?d) ?w4 w5 tr'"
        by blast
      with True inst ob show ?thesis
        by (simp add: post_unhandled [OF nn res True inst])
    qed
  qed
qed

lemma post_sync_run:
  assumes rr: "reporterReturns env"
    and di: "deadEventIntact (rt env) (hp w)"
    and fc: "typeCache w (Ref (fresh (hp w))) = None"
    and al: "allocated (hp w) ev"
    and nn: "\<not> nullish ev"
    and res: "getTypesFor (rt env) (hp w) ev (registry w (Ref (objectCtor (rt env))) \<noteq> None)
                (typeCache w) = Some (Inr types, c)"
  shows "\<exists>w' tr. post env (deliver env) ev w =
             Some (Inr (length (snapshot (registry w) types)), w', tr)
           \<and> (if snapshot (registry w) types \<noteq> [] \<or> instanceofDeadEvent (rt env) (hp w) ev
               then isolatedRun env (snapshot (registry w) types) ev (w\<lparr>typeCache := c\<rparr>)
                      = (w', tr)
               else \<exists>tr'. tr = PostDead (Ref (fresh (hp w))) (wrapperObj env ev) # tr'
                      \<and> isolatedRun env (snapshot (registry w) (wrapperTypes env w))
                            (Ref (fresh (hp w)))
                            (w\<lparr>typeCache := c(Ref (fresh (hp w)) \<mapsto> wrapperTypes env w),
                               hp := snd (newDeadEvent (rt env) (self env) ev (hp w))\<rparr>)
                          = (w', tr'))"
proof (rule post_total_run [where Q = "\<lambda>hs e w0 w' tr. isolatedRun env hs e w0 = (w', tr)",
          OF _ di fc al nn res])
  fix hs e and w0 :: "'a world"
  show "\<exists>w' tr. deliverAll (deliver env) hs e w0 = (None, w', tr)
          \<and> isolatedRun env hs e w0 = (w', tr)"
    by (simp add: deliverAll_isolatedRun [OF rr])
qed

lemma post_async_run:
  assumes ex: "executorReturns env"
    and di: "deadEventIntact (rt env) (hp w)"
    and fc: "typeCache w (Ref (fresh (hp w))) = None"
    and al: "allocated (hp w) ev"
    and nn: "\<not> nullish ev"
    and res: "getTypesFor (rt env) (hp w) ev (registry w (Ref (objectCtor (rt env))) \<noteq> None)
                (typeCache w) = Some (Inr types, c)"
  shows "\<exists>w' tr. post env (asyncDeliver env) ev w =
             Some (Inr (length (snapshot (registry w) types)), w', tr)
           \<and> (if snapshot (registry w) types \<noteq> [] \<or> instanceofDeadEvent (rt env) (hp w) ev
               then submittedRun env (snapshot (registry w) types) ev (w\<lparr>typeCache := c\<rparr>)
                      = (w', tr)
               else \<exists>tr'. tr = PostDead (Ref (fresh (hp w))) (wrapperObj env ev) # tr'
                      \<and> submittedRun env (snapshot (registry w) (wrapperTypes env w))
                            (Ref (fresh (hp w)))
                            (w\<lparr>typeCache := c(Ref (fresh (hp w)) \<mapsto> wrapperTypes env w),
                               hp := snd (newDeadEvent (rt env) (self env) ev (hp w))\<rparr>)
                          = (w', tr'))"
proof (rule post_total_run [where Q = "\<lambda>hs e w0 w' tr. submittedRun env hs e w0 = (w', tr)",
          OF _ di fc al nn res])
  fix hs e and w0 :: "'a world"
  show "\<exists>w' tr. deliverAll (asyncDeliver env) hs e w0 = (None, w', tr)
          \<and> submittedRun env hs e w0 = (w', tr)"
    by (simp add: deliverAll_submittedRun [OF ex])
qed


subsection \<open>Classes, their instances and the resolver\<close>







subsection \<open>Running the model on the concrete heap\<close>

lemma lookupProp_numeral:
  "lookupProp (numeral n) os r k =
     (case props (os r) k of
        Some v \<Rightarrow> v
      | None \<Rightarrow> (case proto (os r) of None \<Rightarrow> Undefined
                  | Some p \<Rightarrow> lookupProp (pred_numeral n) os p k))"
  by (simp add: numeral_eq_Suc)

lemma protoReaches_numeral:
  "protoReaches (numeral n) os r p =
     (case proto (os r) of None \<Rightarrow> False
      | Some q \<Rightarrow> q = p \<or> protoReaches (pred_numeral n) os q p)"
  by (simp add: numeral_eq_Suc)

lemmas run_simps =
  realm0_def objs0_def heap0_def world0_def mkObj_def call0_def env0_def env1_def
  call2_def env2_def env3_def env4_def
  lookupProp_numeral protoReaches_numeral getTypesFor_def ctorChain.simps nextCtor_def
  optProp_def orNull_def Let_def

lemmas bus_simps =
  subscribe_def unsubscribe_def unsubscribeAll_def
  getSubscriptionCount_def setAdd_def setDelete_def snapshot_def deliver_def asyncDeliver_def
  newDeadEvent_def collectHandlers_snapshot

lemmas result_simps =
  outcome_def finalWorld_def actions_def resolved_def cachedAfter_def emptyCache_def

lemma worldA_eq:
  "worldA = world0\<lparr>registry := [Ref 6 \<mapsto> [\<lparr>rid = 0, fn = Ref 14\<rparr>],
                                   Ref 8 \<mapsto> [\<lparr>rid = 1, fn = Ref 15\<rparr>]],
                      nextRec := 2\<rparr>"
  by (simp add: worldA_def subscribe_def setAdd_def Let_def world0_def)


lemma worldC_eq:
  "worldC = world0\<lparr>registry := [Ref 8 \<mapsto> [\<lparr>rid = 0, fn = Ref 14\<rparr>],
                                   Ref 6 \<mapsto> [\<lparr>rid = 1, fn = Ref 15\<rparr>]],
                      nextRec := 2\<rparr>"
  by (simp add: worldC_def subscribe_def setAdd_def Let_def world0_def)

lemma worldD_eq:
  "worldD = world0\<lparr>registry := [Ref 4 \<mapsto> [\<lparr>rid = 0, fn = Ref 14\<rparr>]], nextRec := 1\<rparr>"
  by (simp add: worldD_def subscribe_def setAdd_def Let_def world0_def)

lemma worldO_eq:
  "worldO = world0\<lparr>registry := [Ref 1 \<mapsto> [\<lparr>rid = 0, fn = Ref 14\<rparr>]], nextRec := 1\<rparr>"
  by (simp add: worldO_def subscribe_def setAdd_def Let_def world0_def)

lemma worldA_resolves:
  "getTypesFor (rt env0) (hp worldA) (Ref 9)
     (registry worldA (Ref (objectCtor (rt env0))) \<noteq> None) (typeCache worldA)
   = Some (Inr [Ref 8, Ref 6], [Ref 9 \<mapsto> [Ref 8, Ref 6]])"
  by (simp add: worldA_eq run_simps)

lemma worldD_resolves:
  "getTypesFor (rt env0) (hp worldD) (Ref 9)
     (registry worldD (Ref (objectCtor (rt env0))) \<noteq> None) (typeCache worldD)
   = Some (Inr [Ref 8, Ref 6], [Ref 9 \<mapsto> [Ref 8, Ref 6]])"
  by (simp add: worldD_eq run_simps)

lemma env0_reporter: "reporterReturns env0"
  by (simp add: reporterReturns_def env0_def)

lemma env0_executor: "executorReturns env0"
  by (simp add: executorReturns_def env0_def)

lemma heap0_intact: "deadEventIntact realm0 heap0"
  by (simp add: deadEventIntact_def deadEventCtor_def realm0_def heap0_def objs0_def mkObj_def)

lemma env2_reporter: "reporterReturns env2"
  by (simp add: reporterReturns_def env2_def env0_def)

lemma env3_reporter: "reporterReturns env3"
  by (simp add: reporterReturns_def env3_def env0_def)

lemma worldC_resolves:
  "getTypesFor (rt env2) (hp worldC) (Ref 9)
     (registry worldC (Ref (objectCtor (rt env2))) \<noteq> None) (typeCache worldC)
   = Some (Inr [Ref 8, Ref 6], [Ref 9 \<mapsto> [Ref 8, Ref 6]])"
  by (simp add: worldC_eq run_simps)

lemma worldA_resolves3:
  "getTypesFor (rt env3) (hp worldA) (Ref 9)
     (registry worldA (Ref (objectCtor (rt env3))) \<noteq> None) (typeCache worldA)
   = Some (Inr [Ref 8, Ref 6], [Ref 9 \<mapsto> [Ref 8, Ref 6]])"
  by (simp add: worldA_eq run_simps)

section \<open>The claims\<close>

subsection \<open>Unhandled events and dead events\<close>

text \<open>
  C1 (as amended). A non-null event whose types resolve is posted, and no handler is
  registered for any of the types it resolves to. Then \<open>post\<close> returns 0. If the event
  is not an instance of \<open>DeadEvent\<close>, exactly one dead event is posted in the whole run:
  a new object with prototype \<open>DeadEvent.prototype\<close>, \<open>source\<close> the bus and \<open>event\<close> the
  event posted; after posting it the run is the delivery of that object to the handlers
  registered for the types of a dead event. If the event is an instance of \<open>DeadEvent\<close>,
  nothing is posted and nothing is called: only the cache of the resolver has changed.
  (The exception handler is one that returns, and the class \<open>DeadEvent\<close> is as declared.)
\<close>

theorem post_unhandled_dead_event:
  assumes "reporterReturns env"
    and "deadEventIntact (rt env) (hp w)"
    and "typeCache w (Ref (fresh (hp w))) = None"
    and "allocated (hp w) ev"
    and "\<not> nullish ev"
    and "getTypesFor (rt env) (hp w) ev (registry w (Ref (objectCtor (rt env))) \<noteq> None)
           (typeCache w) = Some (Inr types, c)"
    and "\<forall>t\<in>set types. getSubscriptionCount t w = 0"
  shows "\<exists>w' tr. post env (deliver env) ev w = Some (Inr 0, w', tr)
           \<and> deadPosts tr =
               (if instanceofDeadEvent (rt env) (hp w) ev then []
                else [(Ref (fresh (hp w)),
                       \<lparr>proto = Some (deadEventProto (rt env)),
                        props = [''source'' \<mapsto> self env, ''event'' \<mapsto> ev],
                        callable = False\<rparr>)])
           \<and> (if instanceofDeadEvent (rt env) (hp w) ev
               then tr = [] \<and> w' = w\<lparr>typeCache := c\<rparr>
               else \<exists>tr'. tr = PostDead (Ref (fresh (hp w))) (wrapperObj env ev) # tr'
                      \<and> isolatedRun env (snapshot (registry w) (wrapperTypes env w))
                            (Ref (fresh (hp w))) (deadEventWorld env ev c w) = (w', tr'))"
proof -
  have e: "snapshot (registry w) types = []"
    using assms(7) by (rule snapshot_empty)
  from post_sync_run [OF assms(1-6)] e obtain w' tr where
    p: "post env (deliver env) ev w = Some (Inr 0, w', tr)"
    and q: "if instanceofDeadEvent (rt env) (hp w) ev
            then tr = [] \<and> w' = w\<lparr>typeCache := c\<rparr>
            else \<exists>tr'. tr = PostDead (Ref (fresh (hp w))) (wrapperObj env ev) # tr'
                   \<and> isolatedRun env (snapshot (registry w) (wrapperTypes env w))
                         (Ref (fresh (hp w))) (deadEventWorld env ev c w) = (w', tr')"
    by (auto simp: deadEventWorld_def split: if_splits)
  have "deadPosts tr =
               (if instanceofDeadEvent (rt env) (hp w) ev then []
                else [(Ref (fresh (hp w)),
                       \<lparr>proto = Some (deadEventProto (rt env)),
                        props = [''source'' \<mapsto> self env, ''event'' \<mapsto> ev],
                        callable = False\<rparr>)])"
  proof (cases "instanceofDeadEvent (rt env) (hp w) ev")
    case True
    with q show ?thesis by simp
  next
    case False
    with q obtain tr' where
      t: "tr = PostDead (Ref (fresh (hp w))) (wrapperObj env ev) # tr'"
      and r: "isolatedRun env (snapshot (registry w) (wrapperTypes env w))
                (Ref (fresh (hp w))) (deadEventWorld env ev c w) = (w', tr')"
      by auto
    from isolatedRun_trace [of env "snapshot (registry w) (wrapperTypes env w)"
           "Ref (fresh (hp w))" "deadEventWorld env ev c w"] r
    have "deadPosts tr' = []" by simp
    with False t show ?thesis by (simp add: wrapperObj_def)
  qed
  with p q show ?thesis by blast
qed

theorem post_unhandled_dead_event_witness:
  "(\<exists>w' tr. post env0 (deliver env0) (Ref 9) worldD = Some (Inr 0, w', tr)
      \<and> deadPosts tr =
          [(Ref 20, \<lparr>proto = Some 3, props = [''source'' \<mapsto> Ref 16, ''event'' \<mapsto> Ref 9],
                    callable = False\<rparr>)]
      \<and> (\<exists>tr'. tr = PostDead (Ref 20) (wrapperObj env0 (Ref 9)) # tr'
            \<and> isolatedRun env0 [(Ref 14, Ref 4)] (Ref 20)
                (deadEventWorld env0 (Ref 9) [Ref 9 \<mapsto> [Ref 8, Ref 6]] worldD) = (w', tr')))
   \<and> outcome (post env0 (deliver env0) (Ref 9) worldD) = Some (Inr 0)
   \<and> actions (post env0 (deliver env0) (Ref 9) worldD) =
       Some [PostDead (Ref 20) (wrapperObj env0 (Ref 9)),
             Invoke (Ref 14) (Ref 4) (Ref 20) None]
   \<and> map_option (getSubscriptionCount (Ref 6))
       (finalWorld (post env0 (deliver env0) (Ref 9) worldD)) = Some 1"
proof -
  have h: "deadEventIntact (rt env0) (hp worldD)"
    using heap0_intact by (simp add: env0_def worldD_eq world0_def)
  have c: "typeCache worldD (Ref (fresh (hp worldD))) = None"
    by (simp add: worldD_eq world0_def)
  have a: "allocated (hp worldD) (Ref 9)"
    by (simp add: worldD_eq world0_def heap0_def)
  have n: "\<not> nullish (Ref 9)" by simp
  have z: "\<forall>t\<in>set [Ref 8, Ref 6]. getSubscriptionCount t worldD = 0"
    by (simp add: worldD_eq world0_def getSubscriptionCount_def)
  have i: "\<not> instanceofDeadEvent (rt env0) (hp worldD) (Ref 9)"
    by (simp add: worldD_eq run_simps)
  have s: "snapshot (registry worldD) (wrapperTypes env0 worldD) = [(Ref 14, Ref 4)]"
    by (simp add: worldD_eq run_simps snapshot_def wrapperTypes_def deadEventCtor_def)
  have fr: "fresh (hp worldD) = 20" and se: "self env0 = Ref 16"
    and dp: "deadEventProto (rt env0) = 3"
    by (simp_all add: worldD_eq world0_def heap0_def env0_def realm0_def)
  from post_unhandled_dead_event [OF env0_reporter h c a n worldD_resolves z] i
  have 1: "\<exists>w' tr. post env0 (deliver env0) (Ref 9) worldD = Some (Inr 0, w', tr)
      \<and> deadPosts tr =
          [(Ref 20, \<lparr>proto = Some 3, props = [''source'' \<mapsto> Ref 16, ''event'' \<mapsto> Ref 9],
                    callable = False\<rparr>)]
      \<and> (\<exists>tr'. tr = PostDead (Ref 20) (wrapperObj env0 (Ref 9)) # tr'
            \<and> isolatedRun env0 [(Ref 14, Ref 4)] (Ref 20)
                (deadEventWorld env0 (Ref 9) [Ref 9 \<mapsto> [Ref 8, Ref 6]] worldD) = (w', tr'))"
    by (simp add: s fr se dp del: isolatedRun.simps)
  have 2: "outcome (post env0 (deliver env0) (Ref 9) worldD) = Some (Inr 0)
   \<and> actions (post env0 (deliver env0) (Ref 9) worldD) =
       Some [PostDead (Ref 20) (wrapperObj env0 (Ref 9)),
             Invoke (Ref 14) (Ref 4) (Ref 20) None]
   \<and> map_option (getSubscriptionCount (Ref 6))
       (finalWorld (post env0 (deliver env0) (Ref 9) worldD)) = Some 1"
    by (simp add: worldD_eq post.simps run_simps bus_simps result_simps wrapperObj_def)
  from 1 2 show ?thesis by blast
qed

text \<open>The claim as stated fails for an event whose types do not resolve: on a bus
  without handlers, posting the object \<open>{ constructor: {} }\<close> throws a \<open>TypeError\<close>, so
  \<open>post\<close> returns nothing and no dead event is posted.\<close>

theorem post_malformed_event_throws_counterexample:
  "\<not> nullish (Ref 17)
   \<and> getSubscriptionCount (Ref 18) world0 = 0 \<and> getSubscriptionCount (Ref 1) world0 = 0
   \<and> outcome (post env0 (deliver env0) (Ref 17) world0) = Some (Inl TypeError)
   \<and> actions (post env0 (deliver env0) (Ref 17) world0) = Some []"
  by (simp add: post.simps run_simps bus_simps result_simps)

subsection \<open>Dispatch to handlers of ancestor types\<close>



subsection \<open>The returned count and the snapshot\<close>

text \<open>
  C3 (as amended). For a non-null event whose types resolve, \<open>post\<close> returns the number
  of (type, handler) pairs of the snapshot, which is read from the registry as it is
  when \<open>post\<close> starts, and the handlers it calls with the event are those of the
  snapshot, in order, each in the world the one before it left. Nothing is assumed of
  what a handler does: it may throw, subscribe or unsubscribe. So a handler that throws
  still counts, a handler subscribed during the delivery is not called with the event,
  a handler of the snapshot is called with it even if it was unsubscribed during the
  delivery, and none of this changes the count. (The exception handler is one that
  returns, and the class \<open>DeadEvent\<close> is as declared.)
\<close>

theorem post_counts_snapshot:
  assumes "reporterReturns env"
    and "deadEventIntact (rt env) (hp w)"
    and "typeCache w (Ref (fresh (hp w))) = None"
    and "allocated (hp w) ev"
    and "\<not> nullish ev"
    and "getTypesFor (rt env) (hp w) ev (registry w (Ref (objectCtor (rt env))) \<noteq> None)
           (typeCache w) = Some (Inr types, c)"
  shows "\<exists>w' tr. post env (deliver env) ev w =
             Some (Inr (length (snapshot (registry w) types)), w', tr)
           \<and> ownCalls tr = map (\<lambda>(f, t). (f, t, ev)) (snapshot (registry w) types)
           \<and> (if snapshot (registry w) types \<noteq> [] \<or> instanceofDeadEvent (rt env) (hp w) ev
               then isolatedRun env (snapshot (registry w) types) ev (w\<lparr>typeCache := c\<rparr>)
                      = (w', tr)
               else \<exists>tr'. tr = PostDead (Ref (fresh (hp w))) (wrapperObj env ev) # tr'
                      \<and> isolatedRun env (snapshot (registry w) (wrapperTypes env w))
                            (Ref (fresh (hp w))) (deadEventWorld env ev c w) = (w', tr'))"
proof -
  let ?snap = "snapshot (registry w) types"
  from post_sync_run [OF assms] obtain w' tr where
    p: "post env (deliver env) ev w = Some (Inr (length ?snap), w', tr)"
    and q: "if ?snap \<noteq> [] \<or> instanceofDeadEvent (rt env) (hp w) ev
            then isolatedRun env ?snap ev (w\<lparr>typeCache := c\<rparr>) = (w', tr)
            else \<exists>tr'. tr = PostDead (Ref (fresh (hp w))) (wrapperObj env ev) # tr'
                   \<and> isolatedRun env (snapshot (registry w) (wrapperTypes env w))
                            (Ref (fresh (hp w))) (deadEventWorld env ev c w) = (w', tr')"
    unfolding deadEventWorld_def by blast
  have "ownCalls tr = map (\<lambda>(f, t). (f, t, ev)) ?snap"
  proof (cases "?snap \<noteq> [] \<or> instanceofDeadEvent (rt env) (hp w) ev")
    case True
    with q have r: "isolatedRun env ?snap ev (w\<lparr>typeCache := c\<rparr>) = (w', tr)" by simp
    from isolatedRun_trace [of env ?snap ev "w\<lparr>typeCache := c\<rparr>"] r
    show ?thesis by (simp add: ownCalls_invocations)
  next
    case False
    with q show ?thesis by auto
  qed
  with p q show ?thesis by blast
qed

theorem post_counts_snapshot_witness:
  "(\<exists>w' tr. post env2 (deliver env2) (Ref 9) worldC = Some (Inr 2, w', tr)
      \<and> ownCalls tr = [(Ref 14, Ref 8, Ref 9), (Ref 15, Ref 6, Ref 9)]
      \<and> isolatedRun env2 [(Ref 14, Ref 8), (Ref 15, Ref 6)] (Ref 9)
          (worldC\<lparr>typeCache := [Ref 9 \<mapsto> [Ref 8, Ref 6]]\<rparr>) = (w', tr))
   \<and> actions (post env2 (deliver env2) (Ref 9) worldC) =
       Some [Invoke (Ref 14) (Ref 8) (Ref 9) None, Invoke (Ref 15) (Ref 6) (Ref 9) None]
   \<and> getSubscriptionCount (Ref 6) worldC = 1 \<and> getSubscriptionCount (Ref 8) worldC = 1
   \<and> map_option (getSubscriptionCount (Ref 6))
       (finalWorld (post env2 (deliver env2) (Ref 9) worldC)) = Some 0
   \<and> map_option (getSubscriptionCount (Ref 8))
       (finalWorld (post env2 (deliver env2) (Ref 9) worldC)) = Some 2"
proof -
  have h: "deadEventIntact (rt env2) (hp worldC)"
    using heap0_intact by (simp add: env2_def env0_def worldC_eq world0_def)
  have c: "typeCache worldC (Ref (fresh (hp worldC))) = None"
    by (simp add: worldC_eq world0_def)
  have a: "allocated (hp worldC) (Ref 9)"
    by (simp add: worldC_eq world0_def heap0_def)
  have n: "\<not> nullish (Ref 9)" by simp
  have s: "snapshot (registry worldC) [Ref 8, Ref 6] = [(Ref 14, Ref 8), (Ref 15, Ref 6)]"
    by (simp add: worldC_eq world0_def snapshot_def)
  from post_counts_snapshot [OF env2_reporter h c a n worldC_resolves]
  have 1: "\<exists>w' tr. post env2 (deliver env2) (Ref 9) worldC = Some (Inr 2, w', tr)
      \<and> ownCalls tr = [(Ref 14, Ref 8, Ref 9), (Ref 15, Ref 6, Ref 9)]
      \<and> isolatedRun env2 [(Ref 14, Ref 8), (Ref 15, Ref 6)] (Ref 9)
          (worldC\<lparr>typeCache := [Ref 9 \<mapsto> [Ref 8, Ref 6]]\<rparr>) = (w', tr)"
    by (simp add: s numeral_2_eq_2 del: isolatedRun.simps)
  have 2: "actions (post env2 (deliver env2) (Ref 9) worldC) =
       Some [Invoke (Ref 14) (Ref 8) (Ref 9) None, Invoke (Ref 15) (Ref 6) (Ref 9) None]
   \<and> map_option (getSubscriptionCount (Ref 6))
       (finalWorld (post env2 (deliver env2) (Ref 9) worldC)) = Some 0
   \<and> map_option (getSubscriptionCount (Ref 8))
       (finalWorld (post env2 (deliver env2) (Ref 9) worldC)) = Some 2"
    by (simp add: worldC_eq post.simps run_simps bus_simps result_simps wrapperObj_def)
  have 3: "getSubscriptionCount (Ref 6) worldC = 1 \<and> getSubscriptionCount (Ref 8) worldC = 1"
    by (simp add: worldC_eq world0_def getSubscriptionCount_def)
  from 1 2 3 show ?thesis by blast
qed

text \<open>The claim as stated fails for a handler unsubscribed during the delivery: handler
  14 is called first and removes every handler of \<open>Base\<close>, and handler 15, subscribed to
  \<open>Base\<close> when \<open>post\<close> started, is called with the event all the same. It fails too for
  an event whose types do not resolve: posting \<open>{ constructor: {} }\<close> throws, and no
  count is returned.\<close>

theorem post_unsubscribed_handler_called_counterexample:
  "snapshot (registry worldC) [Ref 8, Ref 6] = [(Ref 14, Ref 8), (Ref 15, Ref 6)]
   \<and> fst (call env2 (Ref 14) (Ref 9) worldC) = None
   \<and> getSubscriptionCount (Ref 6) (snd (call env2 (Ref 14) (Ref 9) worldC)) = 0
   \<and> actions (post env2 (deliver env2) (Ref 9) worldC) =
       Some [Invoke (Ref 14) (Ref 8) (Ref 9) None, Invoke (Ref 15) (Ref 6) (Ref 9) None]
   \<and> outcome (post env2 (deliver env2) (Ref 9) worldC) = Some (Inr 2)
   \<and> \<not> nullish (Ref 17)
   \<and> outcome (post env2 (deliver env2) (Ref 17) worldC) = Some (Inl TypeError)"
  by (simp add: worldC_eq post.simps run_simps bus_simps result_simps wrapperObj_def)

subsection \<open>Isolation of handler errors\<close>

text \<open>
  C4. An event whose types have resolved (as they have in every post that calls a
  handler) is posted on a bus whose exception handler returns. Then \<open>post\<close> returns a
  count, so no error reaches its caller whatever the handlers throw, and the run is the
  delivery the spec describes: every handler of the snapshot is called, in order; a call
  that throws is followed at once by one call of the exception handler, with the error
  thrown and the context \<open>{event, eventType, handler, eventBus}\<close> of that call, in the
  world the handler left; the exception handler is called nowhere else. When a dead
  event is posted, the same holds of its delivery.
\<close>

theorem post_isolates_handler_errors:
  assumes "reporterReturns env"
    and "deadEventIntact (rt env) (hp w)"
    and "typeCache w (Ref (fresh (hp w))) = None"
    and "allocated (hp w) ev"
    and "\<not> nullish ev"
    and "getTypesFor (rt env) (hp w) ev (registry w (Ref (objectCtor (rt env))) \<noteq> None)
           (typeCache w) = Some (Inr types, c)"
  shows "\<exists>n w' tr. post env (deliver env) ev w = Some (Inr n, w', tr)
           \<and> reportedEach (self env) tr
           \<and> ownCalls tr = map (\<lambda>(f, t). (f, t, ev)) (snapshot (registry w) types)
           \<and> (if snapshot (registry w) types \<noteq> [] \<or> instanceofDeadEvent (rt env) (hp w) ev
               then isolatedRun env (snapshot (registry w) types) ev (w\<lparr>typeCache := c\<rparr>)
                      = (w', tr)
               else \<exists>tr'. tr = PostDead (Ref (fresh (hp w))) (wrapperObj env ev) # tr'
                      \<and> isolatedRun env (snapshot (registry w) (wrapperTypes env w))
                            (Ref (fresh (hp w))) (deadEventWorld env ev c w) = (w', tr'))"
proof -
  let ?snap = "snapshot (registry w) types"
  let ?dsnap = "snapshot (registry w) (wrapperTypes env w)"
  from post_sync_run [OF assms] obtain w' tr where
    p: "post env (deliver env) ev w = Some (Inr (length ?snap), w', tr)"
    and q: "if ?snap \<noteq> [] \<or> instanceofDeadEvent (rt env) (hp w) ev
            then isolatedRun env ?snap ev (w\<lparr>typeCache := c\<rparr>) = (w', tr)
            else \<exists>tr'. tr = PostDead (Ref (fresh (hp w))) (wrapperObj env ev) # tr'
                   \<and> isolatedRun env ?dsnap
                            (Ref (fresh (hp w))) (deadEventWorld env ev c w) = (w', tr')"
    unfolding deadEventWorld_def by blast
  have "reportedEach (self env) tr \<and> ownCalls tr = map (\<lambda>(f, t). (f, t, ev)) ?snap"
  proof (cases "?snap \<noteq> [] \<or> instanceofDeadEvent (rt env) (hp w) ev")
    case True
    with q have r: "isolatedRun env ?snap ev (w\<lparr>typeCache := c\<rparr>) = (w', tr)" by simp
    from isolatedRun_trace [of env ?snap ev "w\<lparr>typeCache := c\<rparr>"] r
    show ?thesis by (simp add: ownCalls_invocations)
  next
    case False
    with q obtain tr' where
      t: "tr = PostDead (Ref (fresh (hp w))) (wrapperObj env ev) # tr'"
      and r: "isolatedRun env ?dsnap (Ref (fresh (hp w))) (deadEventWorld env ev c w) = (w', tr')"
      by auto
    from isolatedRun_trace [of env ?dsnap "Ref (fresh (hp w))" "deadEventWorld env ev c w"] r
    have "reportedEach (self env) tr'" by simp
    with False t show ?thesis by simp
  qed
  with p q show ?thesis by blast
qed

theorem post_isolates_handler_errors_witness:
  "(\<exists>n w' tr. post env3 (deliver env3) (Ref 9) worldA = Some (Inr n, w', tr)
      \<and> reportedEach (Ref 16) tr
      \<and> ownCalls tr = [(Ref 15, Ref 8, Ref 9), (Ref 14, Ref 6, Ref 9)]
      \<and> isolatedRun env3 [(Ref 15, Ref 8), (Ref 14, Ref 6)] (Ref 9)
          (worldA\<lparr>typeCache := [Ref 9 \<mapsto> [Ref 8, Ref 6]]\<rparr>) = (w', tr))
   \<and> outcome (post env3 (deliver env3) (Ref 9) worldA) = Some (Inr 2)
   \<and> actions (post env3 (deliver env3) (Ref 9) worldA) =
       Some [Invoke (Ref 15) (Ref 8) (Ref 9) (Some (Thrown (Str ''fail''))),
             Report (Thrown (Str ''fail''))
               \<lparr>event = Ref 9, eventType = Ref 8, handler = Ref 15, eventBus = Ref 16\<rparr> None,
             Invoke (Ref 14) (Ref 6) (Ref 9) None]
   \<and> user worldA = []
   \<and> map_option user (finalWorld (post env3 (deliver env3) (Ref 9) worldA)) =
       Some [Task (Ref 15) (Ref 8) (Ref 9)]
   \<and> map_option (getSubscriptionCount (Ref 6))
       (finalWorld (post env3 (deliver env3) (Ref 9) worldA)) = Some 2"
proof -
  have h: "deadEventIntact (rt env3) (hp worldA)"
    using heap0_intact by (simp add: env3_def env0_def worldA_eq world0_def)
  have c: "typeCache worldA (Ref (fresh (hp worldA))) = None"
    by (simp add: worldA_eq world0_def)
  have a: "allocated (hp worldA) (Ref 9)"
    by (simp add: worldA_eq world0_def heap0_def)
  have n: "\<not> nullish (Ref 9)" by simp
  have s: "snapshot (registry worldA) [Ref 8, Ref 6] = [(Ref 15, Ref 8), (Ref 14, Ref 6)]"
    by (simp add: worldA_eq world0_def snapshot_def)
  have se: "self env3 = Ref 16"
    by (simp add: env3_def env0_def)
  from post_isolates_handler_errors [OF env3_reporter h c a n worldA_resolves3]
  have 1: "\<exists>n w' tr. post env3 (deliver env3) (Ref 9) worldA = Some (Inr n, w', tr)
      \<and> reportedEach (Ref 16) tr
      \<and> ownCalls tr = [(Ref 15, Ref 8, Ref 9), (Ref 14, Ref 6, Ref 9)]
      \<and> isolatedRun env3 [(Ref 15, Ref 8), (Ref 14, Ref 6)] (Ref 9)
          (worldA\<lparr>typeCache := [Ref 9 \<mapsto> [Ref 8, Ref 6]]\<rparr>) = (w', tr)"
    by (simp add: s se del: isolatedRun.simps)
  have 2: "outcome (post env3 (deliver env3) (Ref 9) worldA) = Some (Inr 2)
   \<and> actions (post env3 (deliver env3) (Ref 9) worldA) =
       Some [Invoke (Ref 15) (Ref 8) (Ref 9) (Some (Thrown (Str ''fail''))),
             Report (Thrown (Str ''fail''))
               \<lparr>event = Ref 9, eventType = Ref 8, handler = Ref 15, eventBus = Ref 16\<rparr> None,
             Invoke (Ref 14) (Ref 6) (Ref 9) None]
   \<and> map_option user (finalWorld (post env3 (deliver env3) (Ref 9) worldA)) =
       Some [Task (Ref 15) (Ref 8) (Ref 9)]
   \<and> map_option (getSubscriptionCount (Ref 6))
       (finalWorld (post env3 (deliver env3) (Ref 9) worldA)) = Some 2"
    by (simp add: worldA_eq post.simps run_simps bus_simps result_simps wrapperObj_def)
  have 3: "user worldA = []"
    by (simp add: worldA_eq world0_def)
  from 1 2 3 show ?thesis by blast
qed

subsection \<open>Handlers registered for the root type\<close>

text \<open>
  C5 (as amended). A handler is registered for \<open>Object\<close>, and the event posted is an
  object (not \<open>null\<close>, not a primitive, not a function) whose types resolve. Then
  \<open>Object\<close> is among the resolved types, the handler is called with the event for the
  type \<open>Object\<close>, the count returned is the number of handler calls made and at least 1,
  and no dead event is posted.
\<close>

theorem post_root_handler_objects:
  assumes "reporterReturns env"
    and "getTypesFor (rt env) (hp w) ev (registry w (Ref (objectCtor (rt env))) \<noteq> None)
           (typeCache w) = Some (Inr types, c)"
    and "truthy ev" and "typeof (hp w) ev = TObject"
    and "registry w (Ref (objectCtor (rt env))) = Some recs"
    and "rec \<in> set recs"
  shows "Ref (objectCtor (rt env)) \<in> set types
         \<and> (\<exists>n w' tr. post env (deliver env) ev w = Some (Inr n, w', tr)
               \<and> (fn rec, Ref (objectCtor (rt env)), ev) \<in> set (invocations tr)
               \<and> n = length (invocations tr) \<and> 1 \<le> n \<and> deadPosts tr = [])"
proof -
  from assms(2,5) have
    "getTypesFor (rt env) (hp w) ev True (typeCache w) = Some (Inr types, c)"
    by simp
  from getTypesFor_root [OF this assms(3,4)]
  have root: "Ref (objectCtor (rt env)) \<in> set types" .
  from snapshot_member [where reg = "registry w", OF root assms(5,6)]
  have m: "(fn rec, Ref (objectCtor (rt env))) \<in> set (snapshot (registry w) types)" .
  then have ne: "snapshot (registry w) types \<noteq> []" by auto
  from post_sync_handled [OF assms(1,2) ne] obtain w' tr where
    p: "post env (deliver env) ev w = Some (Inr (length (snapshot (registry w) types)), w', tr)"
    and i: "invocations tr = map (\<lambda>(f, t). (f, t, ev)) (snapshot (registry w) types)"
    and d: "deadPosts tr = []"
    by blast
  from i m have "(fn rec, Ref (objectCtor (rt env)), ev) \<in> set (invocations tr)"
    by force
  moreover from i have "length (snapshot (registry w) types) = length (invocations tr)"
    by simp
  moreover from ne have "1 \<le> length (snapshot (registry w) types)"
    by (cases "snapshot (registry w) types") simp_all
  ultimately show ?thesis using p d root by auto
qed

theorem post_root_handler_objects_witness:
  "Ref 1 \<in> set [Ref 1]
   \<and> (\<exists>n w' tr. post env0 (deliver env0) (Ref 18) worldO = Some (Inr n, w', tr)
         \<and> (Ref 14, Ref 1, Ref 18) \<in> set (invocations tr)
         \<and> n = length (invocations tr) \<and> 1 \<le> n \<and> deadPosts tr = [])
   \<and> outcome (post env0 (deliver env0) (Ref 18) worldO) = Some (Inr 1)
   \<and> actions (post env0 (deliver env0) (Ref 18) worldO) =
       Some [Invoke (Ref 14) (Ref 1) (Ref 18) None]"
proof -
  have r: "getTypesFor (rt env0) (hp worldO) (Ref 18)
     (registry worldO (Ref (objectCtor (rt env0))) \<noteq> None) (typeCache worldO)
     = Some (Inr [Ref 1], [Ref 18 \<mapsto> [Ref 1]])"
    by (simp add: worldO_eq run_simps)
  have t: "truthy (Ref 18)" by simp
  have o: "typeof (hp worldO) (Ref 18) = TObject"
    by (simp add: worldO_eq run_simps)
  have g: "registry worldO (Ref (objectCtor (rt env0))) = Some [\<lparr>rid = 0, fn = Ref 14\<rparr>]"
    by (simp add: worldO_eq run_simps)
  have k: "\<lparr>rid = 0, fn = Ref 14\<rparr> \<in> set [\<lparr>rid = 0, fn = Ref 14\<rparr>]" by simp
  from post_root_handler_objects [OF env0_reporter r t o g k]
  have 1: "Ref 1 \<in> set [Ref 1]
   \<and> (\<exists>n w' tr. post env0 (deliver env0) (Ref 18) worldO = Some (Inr n, w', tr)
         \<and> (Ref 14, Ref 1, Ref 18) \<in> set (invocations tr)
         \<and> n = length (invocations tr) \<and> 1 \<le> n \<and> deadPosts tr = [])"
    by (simp add: env0_def realm0_def)
  have 2: "outcome (post env0 (deliver env0) (Ref 18) worldO) = Some (Inr 1)
   \<and> actions (post env0 (deliver env0) (Ref 18) worldO) =
       Some [Invoke (Ref 14) (Ref 1) (Ref 18) None]"
    by (simp add: worldO_eq post.simps run_simps bus_simps result_simps wrapperObj_def)
  from 1 2 show ?thesis by blast
qed

text \<open>The claim as stated fails for a primitive: with a handler registered for \<open>Object\<close>,
  posting the number 42 returns 0, a dead event is posted, and the handler is called
  with the dead event, not with 42.\<close>

theorem post_root_handler_primitive_counterexample:
  "getSubscriptionCount (Ref (objectCtor (rt env0))) worldO = 1
   \<and> \<not> nullish (Num 42)
   \<and> outcome (post env0 (deliver env0) (Num 42) worldO) = Some (Inr 0)
   \<and> actions (post env0 (deliver env0) (Num 42) worldO) =
       Some [PostDead (Ref 20) (wrapperObj env0 (Num 42)),
             Invoke (Ref 14) (Ref 1) (Ref 20) None]"
  by (simp add: worldO_eq post.simps run_simps bus_simps result_simps wrapperObj_def
        getSubscriptionCount_def)

subsection \<open>What the resolver caches\<close>

text \<open>
  C6 (as amended). On a cache hit the resolver leaves the cache as it is: the cached list
  is not changed, and when the root is requested and absent it is appended to a copy
  that is returned and not stored (a cached list without the root is returned as it is
  when the root is not requested). On a cache miss the list that is stored is the list
  that is returned, and it contains the root exactly when that call requested it: the
  cache entry holds the root-exclusive resolution only when the first call for the
  instance did not ask for the root.
\<close>

theorem getTypesFor_cache:
  assumes "truthy ev" and "typeof h ev = TObject"
  shows "(\<forall>cached. cache ev = Some cached \<longrightarrow>
            (\<exists>types. getTypesFor R h ev b cache = Some (Inr types, cache)
               \<and> (b \<longrightarrow> types = (if Ref (objectCtor R) \<in> set cached then cached
                                    else cached @ [Ref (objectCtor R)]))
               \<and> (\<not> b \<and> Ref (objectCtor R) \<notin> set cached \<longrightarrow> types = cached)))
       \<and> (\<forall>types cache'. cache ev = None \<longrightarrow>
            getTypesFor R h ev b cache = Some (Inr types, cache') \<longrightarrow>
              cache' = cache(ev \<mapsto> types) \<and> (Ref (objectCtor R) \<in> set types \<longleftrightarrow> b))"
proof (intro conjI allI impI)
  fix cached
  assume "cache ev = Some cached"
  with assms show "\<exists>types. getTypesFor R h ev b cache = Some (Inr types, cache)
      \<and> (b \<longrightarrow> types = (if Ref (objectCtor R) \<in> set cached then cached
                           else cached @ [Ref (objectCtor R)]))
      \<and> (\<not> b \<and> Ref (objectCtor R) \<notin> set cached \<longrightarrow> types = cached)"
    by (simp add: getTypesFor_def)
next
  fix types cache'
  assume miss: "cache ev = None"
    and res: "getTypesFor R h ev b cache = Some (Inr types, cache')"
  from assms obtain r where r: "ev = Ref r" using truthy_object_Ref by blast
  from res miss assms r obtain out where
    ch: "ctorChain R h (orNull (lookupProp (fresh h) (objs h) r ''constructor'')) = Some (Inr out)"
    and ty: "types = (if b then out @ [Ref (objectCtor R)] else out)"
    and c': "cache' = cache(ev \<mapsto> types)"
    by (auto simp: getTypesFor_def Let_def split: bind_splits sum.splits if_splits)
  from ctorChain_no_object [OF ch] ty
  have "Ref (objectCtor R) \<in> set types \<longleftrightarrow> b" by auto
  with c' show "cache' = cache(ev \<mapsto> types)" and "Ref (objectCtor R) \<in> set types \<longleftrightarrow> b"
    by simp_all
qed

theorem getTypesFor_cache_witness:
  "truthy (Ref 9) \<and> typeof heap0 (Ref 9) = TObject
   \<and> getTypesFor realm0 heap0 (Ref 9) True [Ref 9 \<mapsto> [Ref 8, Ref 6]] =
       Some (Inr [Ref 8, Ref 6, Ref 1], [Ref 9 \<mapsto> [Ref 8, Ref 6]])
   \<and> getTypesFor realm0 heap0 (Ref 9) False Map.empty =
       Some (Inr [Ref 8, Ref 6], [Ref 9 \<mapsto> [Ref 8, Ref 6]])"
proof -
  have a: "truthy (Ref 9)" and b: "typeof heap0 (Ref 9) = TObject"
    by (simp_all add: heap0_def objs0_def mkObj_def)
  have hit: "[Ref 9 \<mapsto> [Ref 8, Ref 6]] (Ref 9) = Some [Ref 8, Ref 6]" by simp
  have miss: "getTypesFor realm0 heap0 (Ref 9) False Map.empty =
       Some (Inr [Ref 8, Ref 6], [Ref 9 \<mapsto> [Ref 8, Ref 6]])"
    by (simp add: run_simps)
  from getTypesFor_cache [OF a b, of "[Ref 9 \<mapsto> [Ref 8, Ref 6]]" realm0 True] hit
  have "getTypesFor realm0 heap0 (Ref 9) True [Ref 9 \<mapsto> [Ref 8, Ref 6]] =
       Some (Inr [Ref 8, Ref 6, Ref 1], [Ref 9 \<mapsto> [Ref 8, Ref 6]])"
    by (auto simp: realm0_def)
  with a b miss show ?thesis by simp
qed

text \<open>The claim as stated fails: the first resolution of the event \<open>e\<close>, asked to include
  the root, stores the list with \<open>Object\<close> (object 1) in the cache.\<close>

theorem getTypesFor_caches_root_counterexample:
  "resolved (getTypesFor realm0 heap0 (Ref 9) True emptyCache)
     = Some (Inr [Ref 8, Ref 6, Ref 1])
   \<and> cachedAfter (Ref 9) (getTypesFor realm0 heap0 (Ref 9) True emptyCache)
     = Some [Ref 8, Ref 6, Ref 1]
   \<and> Ref (objectCtor realm0) = Ref 1"
  by (simp add: run_simps result_simps)

subsection \<open>When the resolver returns\<close>

text \<open>
  C7 (as amended). \<open>getTypesFor\<close> returns the empty list, and throws nothing, for
  \<open>null\<close>, \<open>undefined\<close>, every primitive and every function. For an object it returns a
  list, and throws nothing, when the object is cached, or when the loop over its
  constructor chain (started at its \<open>constructor\<close> property) ends and every constructor
  on the chain has a \<open>prototype\<close> property that is neither \<open>undefined\<close> nor \<open>null\<close>.
\<close>

theorem getTypesFor_returns:
  assumes "truthy ev \<and> typeof h ev = TObject \<and> cache ev = None \<longrightarrow>
             (case getProp R h ev ''constructor'' of
                Inl e \<Rightarrow> False
              | Inr c \<Rightarrow> chainWithin n R h (orNull c))"
  shows "\<exists>types cache'. getTypesFor R h ev b cache = Some (Inr types, cache')
           \<and> (\<not> truthy ev \<or> typeof h ev \<noteq> TObject \<longrightarrow> types = [])"
proof (cases "truthy ev \<and> typeof h ev = TObject")
  case False
  then show ?thesis by (auto simp: getTypesFor_non_object)
next
  case obj: True
  show ?thesis
  proof (cases "cache ev")
    case (Some cached)
    with obj show ?thesis by (simp add: getTypesFor_def)
  next
    case None
    with assms obj obtain c where c: "getProp R h ev ''constructor'' = Inr c"
      and cw: "chainWithin n R h (orNull c)"
      by (auto split: sum.splits)
    from chainWithin_returns [OF cw] obtain out where
      "ctorChain R h (orNull c) = Some (Inr out)" by blast
    with obj None c show ?thesis
      by (simp add: getTypesFor_def Let_def del: getProp.simps typeof.simps)
  qed
qed

theorem getTypesFor_returns_witness:
  "(\<exists>types cache'. getTypesFor realm0 heap0 (Ref 9) True Map.empty = Some (Inr types, cache'))
   \<and> chainWithin 2 realm0 heap0 (Ref 8)"
proof -
  have cw: "chainWithin 2 realm0 heap0 (Ref 8)"
    by (simp add: numeral_2_eq_2 realm0_def objs0_def heap0_def mkObj_def lookupProp_numeral
          nextCtor_def optProp_def orNull_def)
  have "truthy (Ref 9) \<and> typeof heap0 (Ref 9) = TObject \<and> Map.empty (Ref 9) = None \<longrightarrow>
          (case getProp realm0 heap0 (Ref 9) ''constructor'' of
             Inl e \<Rightarrow> False
           | Inr c \<Rightarrow> chainWithin 2 realm0 heap0 (orNull c))"
    using cw
    by (simp add: realm0_def objs0_def heap0_def mkObj_def lookupProp_numeral orNull_def)
  from getTypesFor_returns [OF this, of True] cw show ?thesis by blast
qed

theorem getTypesFor_throws_counterexample:
  "truthy (Ref 17) \<and> typeof heap0 (Ref 17) = TObject
   \<and> getProp realm0 heap0 (Ref 17) ''constructor'' = Inr (Ref 18)
   \<and> getProp realm0 heap0 (Ref 18) ''prototype'' = Inr Undefined
   \<and> resolved (getTypesFor realm0 heap0 (Ref 17) False emptyCache) = Some (Inl TypeError)"
  by (simp add: run_simps result_simps)

subsection \<open>The deferred bus\<close>

text \<open>
  C8 (as amended). On the deferred bus, with an executor that returns and for an event
  whose types resolve, \<open>post\<close> returns the size of the snapshot, the count the
  synchronous bus returns for the same event in the same state. It gives the executor
  one task per handler of the snapshot, in snapshot order, each the closure over that
  handler, its type and the event, and each in the world the submission before it left;
  it calls no handler itself, so whether a handler has run when \<open>post\<close> returns is the
  executor's choice.
\<close>

theorem async_post_submits_snapshot:
  assumes "executorReturns env"
    and "reporterReturns env"
    and "deadEventIntact (rt env) (hp w)"
    and "typeCache w (Ref (fresh (hp w))) = None"
    and "allocated (hp w) ev"
    and "\<not> nullish ev"
    and "getTypesFor (rt env) (hp w) ev (registry w (Ref (objectCtor (rt env))) \<noteq> None)
           (typeCache w) = Some (Inr types, c)"
  shows "\<exists>w' tr ws trs.
           post env (asyncDeliver env) ev w =
             Some (Inr (length (snapshot (registry w) types)), w', tr)
           \<and> post env (deliver env) ev w =
               Some (Inr (length (snapshot (registry w) types)), ws, trs)
           \<and> ownSubmissions tr = map (\<lambda>(f, t). Task f t ev) (snapshot (registry w) types)
           \<and> invocations tr = []
           \<and> (if snapshot (registry w) types \<noteq> [] \<or> instanceofDeadEvent (rt env) (hp w) ev
               then submittedRun env (snapshot (registry w) types) ev (w\<lparr>typeCache := c\<rparr>)
                      = (w', tr)
               else \<exists>tr'. tr = PostDead (Ref (fresh (hp w))) (wrapperObj env ev) # tr'
                      \<and> submittedRun env (snapshot (registry w) (wrapperTypes env w))
                            (Ref (fresh (hp w))) (deadEventWorld env ev c w) = (w', tr'))"
proof -
  let ?snap = "snapshot (registry w) types"
  let ?dsnap = "snapshot (registry w) (wrapperTypes env w)"
  from post_async_run [OF assms(1,3-7)] obtain w' tr where
    p: "post env (asyncDeliver env) ev w = Some (Inr (length ?snap), w', tr)"
    and q: "if ?snap \<noteq> [] \<or> instanceofDeadEvent (rt env) (hp w) ev
            then submittedRun env ?snap ev (w\<lparr>typeCache := c\<rparr>) = (w', tr)
            else \<exists>tr'. tr = PostDead (Ref (fresh (hp w))) (wrapperObj env ev) # tr'
                   \<and> submittedRun env ?dsnap
                            (Ref (fresh (hp w))) (deadEventWorld env ev c w) = (w', tr')"
    unfolding deadEventWorld_def by blast
  from post_sync [OF assms(2-7)] obtain ws trs where
    s: "post env (deliver env) ev w = Some (Inr (length ?snap), ws, trs)"
    by blast
  have "ownSubmissions tr = map (\<lambda>(f, t). Task f t ev) ?snap \<and> invocations tr = []"
  proof (cases "?snap \<noteq> [] \<or> instanceofDeadEvent (rt env) (hp w) ev")
    case True
    with q have r: "submittedRun env ?snap ev (w\<lparr>typeCache := c\<rparr>) = (w', tr)" by simp
    from submittedRun_trace [of env ?snap ev "w\<lparr>typeCache := c\<rparr>"] r
    have "tr = map (\<lambda>(f, t). Submit (Task f t ev)) ?snap" by simp
    then show ?thesis by simp
  next
    case False
    with q obtain tr' where
      t: "tr = PostDead (Ref (fresh (hp w))) (wrapperObj env ev) # tr'"
      and r: "submittedRun env ?dsnap (Ref (fresh (hp w))) (deadEventWorld env ev c w)
                = (w', tr')"
      by auto
    from submittedRun_trace [of env ?dsnap "Ref (fresh (hp w))" "deadEventWorld env ev c w"] r
    have "tr' = map (\<lambda>(f, t). Submit (Task f t (Ref (fresh (hp w))))) ?dsnap" by simp
    with False t show ?thesis by simp
  qed
  with p q s show ?thesis by blast
qed

theorem async_post_submits_snapshot_witness:
  "(\<exists>w' tr ws trs.
      post env0 (asyncDeliver env0) (Ref 9) worldA = Some (Inr 2, w', tr)
      \<and> post env0 (deliver env0) (Ref 9) worldA = Some (Inr 2, ws, trs)
      \<and> ownSubmissions tr = [Task (Ref 15) (Ref 8) (Ref 9), Task (Ref 14) (Ref 6) (Ref 9)]
      \<and> invocations tr = []
      \<and> submittedRun env0 [(Ref 15, Ref 8), (Ref 14, Ref 6)] (Ref 9)
          (worldA\<lparr>typeCache := [Ref 9 \<mapsto> [Ref 8, Ref 6]]\<rparr>) = (w', tr))
   \<and> outcome (post env0 (asyncDeliver env0) (Ref 9) worldA) = Some (Inr 2)
   \<and> map_option user (finalWorld (post env0 (asyncDeliver env0) (Ref 9) worldA)) =
       Some [Task (Ref 15) (Ref 8) (Ref 9), Task (Ref 14) (Ref 6) (Ref 9)]
   \<and> map_option registry (finalWorld (post env0 (asyncDeliver env0) (Ref 9) worldA)) =
       Some (registry worldA)
   \<and> user worldA = []"
proof -
  have h: "deadEventIntact (rt env0) (hp worldA)"
    using heap0_intact by (simp add: env0_def worldA_eq world0_def)
  have c: "typeCache worldA (Ref (fresh (hp worldA))) = None"
    by (simp add: worldA_eq world0_def)
  have a: "allocated (hp worldA) (Ref 9)"
    by (simp add: worldA_eq world0_def heap0_def)
  have n: "\<not> nullish (Ref 9)" by simp
  have s: "snapshot (registry worldA) [Ref 8, Ref 6] = [(Ref 15, Ref 8), (Ref 14, Ref 6)]"
    by (simp add: worldA_eq world0_def snapshot_def)
  from async_post_submits_snapshot [OF env0_executor env0_reporter h c a n worldA_resolves]
  have 1: "\<exists>w' tr ws trs.
      post env0 (asyncDeliver env0) (Ref 9) worldA = Some (Inr 2, w', tr)
      \<and> post env0 (deliver env0) (Ref 9) worldA = Some (Inr 2, ws, trs)
      \<and> ownSubmissions tr = [Task (Ref 15) (Ref 8) (Ref 9), Task (Ref 14) (Ref 6) (Ref 9)]
      \<and> invocations tr = []
      \<and> submittedRun env0 [(Ref 15, Ref 8), (Ref 14, Ref 6)] (Ref 9)
          (worldA\<lparr>typeCache := [Ref 9 \<mapsto> [Ref 8, Ref 6]]\<rparr>) = (w', tr)"
    by (simp add: s numeral_2_eq_2 del: submittedRun.simps)
  have 2: "outcome (post env0 (asyncDeliver env0) (Ref 9) worldA) = Some (Inr 2)
   \<and> map_option user (finalWorld (post env0 (asyncDeliver env0) (Ref 9) worldA)) =
       Some [Task (Ref 15) (Ref 8) (Ref 9), Task (Ref 14) (Ref 6) (Ref 9)]
   \<and> map_option registry (finalWorld (post env0 (asyncDeliver env0) (Ref 9) worldA)) =
       Some (registry worldA)"
    by (simp add: worldA_eq post.simps run_simps bus_simps result_simps wrapperObj_def world0_def)
  have 3: "user worldA = []"
    by (simp add: worldA_eq world0_def)
  from 1 2 3 show ?thesis by blast
qed

text \<open>The claim as stated fails for an event whose types do not resolve: the deferred
  post of \<open>{ constructor: {} }\<close> throws and returns no count. It fails too for an
  executor that throws: what it throws leaves \<open>post\<close> at the first submission, so no
  count is returned and the second handler of the snapshot gets no task, while the
  synchronous bus returns 2.\<close>

theorem async_post_no_count_counterexample:
  "\<not> nullish (Ref 17)
   \<and> outcome (post env0 (asyncDeliver env0) (Ref 17) worldA) = Some (Inl TypeError)
   \<and> actions (post env0 (asyncDeliver env0) (Ref 17) worldA) = Some []
   \<and> snapshot (registry worldA) [Ref 8, Ref 6] = [(Ref 15, Ref 8), (Ref 14, Ref 6)]
   \<and> outcome (post env4 (asyncDeliver env4) (Ref 9) worldA)
       = Some (Inl (Thrown (Str ''executor'')))
   \<and> actions (post env4 (asyncDeliver env4) (Ref 9) worldA)
       = Some [Submit (Task (Ref 15) (Ref 8) (Ref 9))]
   \<and> outcome (post env4 (deliver env4) (Ref 9) worldA) = Some (Inr 2)"
  by (simp add: worldA_eq post.simps run_simps bus_simps result_simps wrapperObj_def)

subsection \<open>A failing exception handler\<close>



subsection \<open>Posting values that are not objects\<close>

text \<open>
  C10 (as amended). The value posted is neither \<open>null\<close> nor \<open>undefined\<close> nor an object:
  a number, a string, a boolean, a symbol, or a function that is not an instance of
  \<open>DeadEvent\<close>. Then \<open>post\<close> returns 0 and posts exactly one dead event, a new object
  with \<open>source\<close> the bus and \<open>event\<close> the value; whatever handlers are registered, they
  are called with that dead event only (those of \<open>DeadEvent\<close>, then those of \<open>Object\<close>),
  never with the value itself.
\<close>

theorem post_primitive_dead_event:
  assumes "reporterReturns env"
    and "deadEventIntact (rt env) (hp w)"
    and "typeCache w (Ref (fresh (hp w))) = None"
    and "allocated (hp w) ev"
    and "\<not> nullish ev"
    and "typeof (hp w) ev \<noteq> TObject"
    and "typeof (hp w) ev = TFunction \<longrightarrow> \<not> instanceofDeadEvent (rt env) (hp w) ev"
  shows "\<exists>w' tr. post env (deliver env) ev w =
             Some (Inr 0, w',
               PostDead (Ref (fresh (hp w)))
                 \<lparr>proto = Some (deadEventProto (rt env)),
                  props = [''source'' \<mapsto> self env, ''event'' \<mapsto> ev], callable = False\<rparr> # tr)
           \<and> deadPosts tr = []
           \<and> invocations tr =
                map (\<lambda>(f, t). (f, t, Ref (fresh (hp w))))
                  (snapshot (registry w) (wrapperTypes env w))
           \<and> Ref (fresh (hp w)) \<noteq> ev"
proof -
  have res: "getTypesFor (rt env) (hp w) ev (registry w (Ref (objectCtor (rt env))) \<noteq> None)
           (typeCache w) = Some (Inr [], typeCache w)"
    using assms(6) by (simp add: getTypesFor_non_object)
  have ni: "\<not> instanceofDeadEvent (rt env) (hp w) ev"
    using assms(6,7) not_function_not_instance by blast
  from post_sync [OF assms(1-5) res] ni obtain w' tr where
    "post env (deliver env) ev w = Some (Inr 0, w', tr)"
    "\<exists>tr'. tr = PostDead (Ref (fresh (hp w))) (wrapperObj env ev) # tr'
       \<and> invocations tr' =
             map (\<lambda>(f, t). (f, t, Ref (fresh (hp w))))
               (snapshot (registry w) (wrapperTypes env w))
       \<and> reportedEach (self env) tr' \<and> deadPosts tr' = [] \<and> submissions tr' = []"
    by auto
  with allocated_not_fresh [OF assms(4)] show ?thesis
    by (auto simp: wrapperObj_def)
qed

theorem post_primitive_dead_event_witness:
  "(\<exists>w' tr. post env0 (deliver env0) (Str ''hello'') worldO =
        Some (Inr 0, w',
          PostDead (Ref 20)
            \<lparr>proto = Some 3, props = [''source'' \<mapsto> Ref 16, ''event'' \<mapsto> Str ''hello''],
             callable = False\<rparr> # tr)
      \<and> deadPosts tr = []
      \<and> invocations tr = [(Ref 14, Ref 1, Ref 20)])
   \<and> typeof (hp worldO) (Str ''hello'') = TString"
proof -
  have h: "deadEventIntact (rt env0) (hp worldO)"
    using heap0_intact by (simp add: env0_def worldO_eq world0_def)
  have c: "typeCache worldO (Ref (fresh (hp worldO))) = None"
    by (simp add: worldO_eq world0_def)
  have a: "allocated (hp worldO) (Str ''hello'')" by simp
  have n: "\<not> nullish (Str ''hello'')" by simp
  have t: "typeof (hp worldO) (Str ''hello'') \<noteq> TObject" by simp
  have f: "typeof (hp worldO) (Str ''hello'') = TFunction \<longrightarrow>
             \<not> instanceofDeadEvent (rt env0) (hp worldO) (Str ''hello'')" by simp
  have s: "snapshot (registry worldO) (wrapperTypes env0 worldO) = [(Ref 14, Ref 1)]"
    by (simp add: worldO_eq run_simps snapshot_def wrapperTypes_def deadEventCtor_def)
  from post_primitive_dead_event [OF env0_reporter h c a n t f]
  show ?thesis
    by (simp add: s) (simp add: worldO_eq run_simps)
qed

text \<open>The claim as stated fails for a function that is an instance of \<open>DeadEvent\<close>
  (\<open>Object.setPrototypeOf(f, DeadEvent.prototype)\<close>): \<open>post\<close> returns 0 and posts no
  dead event.\<close>

theorem post_function_no_dead_event_counterexample:
  "typeof (hp worldO) (Ref 19) = TFunction
   \<and> \<not> nullish (Ref 19)
   \<and> instanceofDeadEvent (rt env0) (hp worldO) (Ref 19)
   \<and> outcome (post env0 (deliver env0) (Ref 19) worldO) = Some (Inr 0)
   \<and> actions (post env0 (deliver env0) (Ref 19) worldO) = Some []"
  by (simp add: worldO_eq post.simps run_simps bus_simps result_simps)

end
